theory Spec2Isabelle
  imports Complex_Main
begin

section \<open>Data model of vtkPhyloXMLTreeWriter\<close>

text \<open>
  The writer of \<^verbatim>\<open>IO/Infovis/vtkPhyloXMLTreeWriter.cxx\<close> turns a vtkTree with its
  vertex and edge arrays into a tree of vtkXMLDataElement objects and prints it.
  The collaborators (vtkTree, vtkAbstractArray, vtkVariant, vtkInformation,
  vtkXMLDataElement, the output stream) are modelled by the data the writer reads from
  them; every read that the C++ performs without a check is a branch of the model.
\<close>

type_synonym vtkIdType = int

text \<open>
  What can go wrong in the C++ without the writer noticing: a null pointer is
  dereferenced, a buffer is read outside its bounds. \<open>OutOfFuel\<close> is not a failure of
  the program: the recursion over the vertices is bounded by a fuel argument, and
  this value says that the bound was reached.
\<close>

datatype failure = OutOfFuel | NullDereference | OutOfBounds

text \<open>
  A vtkVariant, as far as the writer looks at it: its type name, its string form and
  its value as a double. Doubles are kept as rationals; how a double is printed is
  not modelled: a text is either a string or the printed form of a number.
\<close>

record vtkVariant =
  GetTypeAsString :: string
  ToString :: string
  ToDouble :: rat

datatype xml_text = Str string | Num rat

text \<open>
  An entry of a vtkInformation object: a key with its name, and for a
  vtkInformationStringKey the string stored under it. The list is in the order of the
  vtkInformationIterator.
\<close>

datatype info_entry = StringEntry string string | OtherEntry string

fun GetName_key :: "info_entry \<Rightarrow> string" where
  "GetName_key (StringEntry k v) = k"
| "GetName_key (OtherEntry k) = k"

text \<open>\<^verbatim>\<open>vtkInformationStringKey::SafeDownCast\<close> followed by \<^verbatim>\<open>info->Get(key)\<close>:
  \<open>None\<close> is the null pointer that the cast returns for a key of another class.\<close>

fun SafeDownCast_StringKey :: "info_entry \<Rightarrow> string option" where
  "SafeDownCast_StringKey (StringEntry k v) = Some v"
| "SafeDownCast_StringKey (OtherEntry k) = None"

datatype array_class = vtkUnsignedCharArray | vtkOtherArray

text \<open>
  A vtkAbstractArray. \<open>Addr\<close> is the identity of the object (the writer compares
  array pointers); \<open>Values\<close> is the flat buffer, \<open>NumberOfComponents\<close> values per tuple.
\<close>

record vtkAbstractArray =
  Addr :: nat
  Name :: string
  ArrayClass :: array_class
  NumberOfComponents :: nat
  Values :: "vtkVariant list"
  Information :: "info_entry list"

text \<open>\<^verbatim>\<open>GetVariantValue(idx)\<close> reads the flat buffer without a bounds check.\<close>

definition GetVariantValue :: "vtkAbstractArray \<Rightarrow> vtkIdType \<Rightarrow> failure + vtkVariant" where
  "GetVariantValue array idx =
     (if 0 \<le> idx \<and> idx < int (length (Values array))
      then Inr (Values array ! nat idx) else Inl OutOfBounds)"

text \<open>\<^verbatim>\<open>GetComponent(tupleIdx, compIdx)\<close> of a vtkUnsignedCharArray reads
  \<^verbatim>\<open>buffer[NumberOfComponents * tupleIdx + compIdx]\<close> and returns it as a double.\<close>

definition GetComponent :: "vtkAbstractArray \<Rightarrow> vtkIdType \<Rightarrow> nat \<Rightarrow> failure + rat" where
  "GetComponent array tupleIdx compIdx =
     (let i = int (NumberOfComponents array) * tupleIdx + int compIdx
      in if 0 \<le> i \<and> i < int (length (Values array))
         then Inr (ToDouble (Values array ! nat i)) else Inl OutOfBounds)"

text \<open>\<^verbatim>\<open>vtkFieldData::GetAbstractArray(name)\<close>: the first array of that name, or null.\<close>

definition GetAbstractArray :: "vtkAbstractArray list \<Rightarrow> string \<Rightarrow> vtkAbstractArray option" where
  "GetAbstractArray arrays n = find (\<lambda>a. Name a = n) arrays"

text \<open>
  The vtkTree: root, the ordered children of a vertex (\<^verbatim>\<open>GetNumberOfChildren\<close>,
  \<^verbatim>\<open>GetChild\<close>), \<^verbatim>\<open>GetParent\<close> and \<^verbatim>\<open>GetEdgeId\<close> (both \<open>-1\<close> for none), and the two
  attribute sets.
\<close>

record vtkTree =
  GetRoot :: vtkIdType
  GetChildren :: "vtkIdType \<Rightarrow> vtkIdType list"
  GetParent :: "vtkIdType \<Rightarrow> vtkIdType"
  GetEdgeId :: "vtkIdType \<Rightarrow> vtkIdType \<Rightarrow> vtkIdType"
  GetVertexData :: "vtkAbstractArray list"
  GetEdgeData :: "vtkAbstractArray list"

text \<open>A vtkXMLDataElement: name, attributes in the order they were set, character
  data, nested elements in the order they were added.\<close>

datatype vtkXMLDataElement =
  Element (ElementName: string) (Attributes: "(string \<times> xml_text) list")
          (CharacterData: xml_text) (NestedElements: "vtkXMLDataElement list")

definition NewElement :: "string \<Rightarrow> vtkXMLDataElement" where
  "NewElement n = Element n [] (Str []) []"

fun set_attr :: "(string \<times> xml_text) list \<Rightarrow> string \<Rightarrow> xml_text \<Rightarrow> (string \<times> xml_text) list" where
  "set_attr [] k v = [(k, v)]"
| "set_attr ((k', v') # as) k v = (if k' = k then (k, v) # as else (k', v') # set_attr as k v)"

fun SetAttribute :: "vtkXMLDataElement \<Rightarrow> string \<Rightarrow> xml_text \<Rightarrow> vtkXMLDataElement" where
  "SetAttribute (Element n as c es) k v = Element n (set_attr as k v) c es"

fun SetCharacterData :: "vtkXMLDataElement \<Rightarrow> xml_text \<Rightarrow> vtkXMLDataElement" where
  "SetCharacterData (Element n as c es) d = Element n as d es"

fun AddNestedElement :: "vtkXMLDataElement \<Rightarrow> vtkXMLDataElement \<Rightarrow> vtkXMLDataElement" where
  "AddNestedElement (Element n as c es) e = Element n as c (es @ [e])"

fun GetAttribute :: "vtkXMLDataElement \<Rightarrow> string \<Rightarrow> xml_text option" where
  "GetAttribute (Element n as c es) k = map_of as k"


section \<open>The output stream and the writer object\<close>

text \<open>
  The output stream: what has been written, the fail state, and the outcomes of the
  flushes still to come (\<open>True\<close>: that flush fails; an empty list: every later flush
  succeeds). A stream in the fail state ignores output and flushes. Faults are
  modelled at the flushes only.
\<close>

record ostream =
  Written :: string
  Fail :: bool
  FlushFaults :: "bool list"

definition os_put :: "ostream \<Rightarrow> string \<Rightarrow> ostream" where
  "os_put os s = (if Fail os then os else os\<lparr>Written := Written os @ s\<rparr>)"

definition os_flush :: "ostream \<Rightarrow> ostream" where
  "os_flush os =
     (if Fail os then os
      else case FlushFaults os of
             [] \<Rightarrow> os
           | f # fs \<Rightarrow> os\<lparr>Fail := f, FlushFaults := fs\<rparr>)"

definition os_endl :: "ostream \<Rightarrow> ostream" where
  "os_endl os = os_flush (os_put os [CHR 0x0A])"

text \<open>The error code of the writer: \<open>LastSystemError\<close> stands for the value of
  \<^verbatim>\<open>vtkErrorCode::GetLastSystemError()\<close>.\<close>

datatype vtkErrorCode = NoError | LastSystemError

text \<open>
  The fields of the writer object. \<open>Blacklist\<close> is the vtkStringArray of the names
  already written. \<open>PropertyCalls\<close> is not a field of the C++ object: it records, in
  order, the arguments \<open>(array, vertex)\<close> of every completed call of
  \<^verbatim>\<open>WritePropertyElement\<close>, and no function of the model reads it.
\<close>

record vtkPhyloXMLTreeWriter =
  EdgeWeightArrayName :: string
  NodeNameArrayName :: string
  EdgeWeightArray :: "vtkAbstractArray option"
  NodeNameArray :: "vtkAbstractArray option"
  Blacklist :: "string list"
  ErrorCode :: vtkErrorCode
  Stream :: ostream
  PropertyCalls :: "(vtkAbstractArray \<times> vtkIdType) list"

text \<open>The constructor; the stream is the one the superclass opens for the write.\<close>

definition New :: "ostream \<Rightarrow> vtkPhyloXMLTreeWriter" where
  "New os = \<lparr>EdgeWeightArrayName = ''weight'', NodeNameArrayName = ''node name'',
             EdgeWeightArray = None, NodeNameArray = None, Blacklist = [],
             ErrorCode = NoError, Stream = os, PropertyCalls = []\<rparr>"

text \<open>\<^verbatim>\<open>vtkStringArray::LookupValue\<close>: the index of the first occurrence, or \<open>-1\<close>.\<close>

fun LookupValue :: "string list \<Rightarrow> string \<Rightarrow> vtkIdType" where
  "LookupValue [] s = -1"
| "LookupValue (x # xs) s =
     (if x = s then 0 else (let r = LookupValue xs s in if r = -1 then -1 else r + 1))"

definition IgnoreArray :: "vtkPhyloXMLTreeWriter \<Rightarrow> string \<Rightarrow> vtkPhyloXMLTreeWriter" where
  "IgnoreArray w arrayName = w\<lparr>Blacklist := Blacklist w @ [arrayName]\<rparr>"

text \<open>The comparison of an array pointer with a pointer field of the writer.\<close>

fun same_array :: "vtkAbstractArray \<Rightarrow> vtkAbstractArray option \<Rightarrow> bool" where
  "same_array a None = False"
| "same_array a (Some b) = (Addr a = Addr b)"

text \<open>Sequencing of steps that may fail.\<close>

definition bind :: "failure + 'a \<Rightarrow> ('a \<Rightarrow> failure + 'b) \<Rightarrow> failure + 'b" where
  "bind m f = (case m of Inl e \<Rightarrow> Inl e | Inr x \<Rightarrow> f x)"

definition StartFile :: "vtkPhyloXMLTreeWriter \<Rightarrow> int \<times> vtkPhyloXMLTreeWriter" where
  "StartFile w =
     (let os = os_put (Stream w)
                 (''<phyloxml xmlns:xsi='' @ [CHR 0x22] @ ''http://www.w3.org/2001/XMLSchema-instance'' @ [CHR 0x22]
                  @ '' xmlns='' @ [CHR 0x22] @ ''http://www.phyloxml.org'' @ [CHR 0x22]
                  @ '' xsi:schemaLocation='' @ [CHR 0x22]
                  @ ''http://www.phyloxml.org http://www.phyloxml.org/1.10/phyloxml.xsd'' @ [CHR 0x22] @ ''>'');
          os = os_endl os;
          os = os_flush os
      in if Fail os then (0, w\<lparr>Stream := os, ErrorCode := LastSystemError\<rparr>)
         else (1, w\<lparr>Stream := os\<rparr>))"

definition EndFile :: "vtkPhyloXMLTreeWriter \<Rightarrow> int \<times> vtkPhyloXMLTreeWriter" where
  "EndFile w =
     (let os = os_put (Stream w) (''</phyloxml>'' @ [CHR 0x0A]);
          os = os_flush os
      in if Fail os then (0, w\<lparr>Stream := os, ErrorCode := LastSystemError\<rparr>)
         else (1, w\<lparr>Stream := os\<rparr>))"

section \<open>Array attributes and property elements\<close>

text \<open>\<^verbatim>\<open>GetArrayAttribute\<close>: the loop over the information entries of the array.\<close>

fun GetArrayAttribute_loop :: "info_entry list \<Rightarrow> string \<Rightarrow> string" where
  "GetArrayAttribute_loop [] attributeName = []"
| "GetArrayAttribute_loop (e # es) attributeName =
     (if GetName_key e = attributeName
      then (case SafeDownCast_StringKey e of
              Some v \<Rightarrow> v
            | None \<Rightarrow> GetArrayAttribute_loop es attributeName)
      else GetArrayAttribute_loop es attributeName)"

definition GetArrayAttribute :: "vtkAbstractArray \<Rightarrow> string \<Rightarrow> string" where
  "GetArrayAttribute array attributeName = GetArrayAttribute_loop (Information array) attributeName"

text \<open>
  The loop at the head of \<^verbatim>\<open>WritePropertyElement\<close>: every key is cast to a string key
  and \<^verbatim>\<open>key->GetName()\<close> is called on the result without a null check.
\<close>

fun scan_information ::
  "info_entry list \<Rightarrow> string \<times> string \<times> string \<Rightarrow> failure + (string \<times> string \<times> string)" where
  "scan_information [] acc = Inr acc"
| "scan_information (e # es) (authority, appliesTo, unit) =
     (case SafeDownCast_StringKey e of
        None \<Rightarrow> Inl NullDereference
      | Some v \<Rightarrow>
          if GetName_key e = ''authority'' then scan_information es (v, appliesTo, unit)
          else if GetName_key e = ''applies_to'' then scan_information es (authority, v, unit)
          else if GetName_key e = ''unit'' then scan_information es (authority, appliesTo, v)
          else scan_information es (authority, appliesTo, unit))"

text \<open>\<^verbatim>\<open>std::string::find\<close> (\<open>None\<close> is \<^verbatim>\<open>npos\<close>) and \<^verbatim>\<open>std::string::substr\<close>; the
  writer calls \<^verbatim>\<open>substr\<close> with a position that is at most the size of the string.\<close>

fun find_from :: "string \<Rightarrow> string \<Rightarrow> nat \<Rightarrow> nat option" where
  "find_from p [] i = (if p = [] then Some i else None)"
| "find_from p (c # s) i =
     (if take (length p) (c # s) = p then Some i else find_from p s (Suc i))"

definition string_find :: "string \<Rightarrow> string \<Rightarrow> nat option" where
  "string_find s p = find_from p s 0"

definition substr :: "string \<Rightarrow> nat \<Rightarrow> nat \<Rightarrow> string" where
  "substr s pos n = take n (drop pos s)"

text \<open>The conversion of the variant's type name to the value of the \<open>datatype\<close>
  attribute: the two \<^verbatim>\<open>if\<close> statements of \<^verbatim>\<open>WritePropertyElement\<close>, in their order.\<close>

definition xsd_datatype :: "string \<Rightarrow> string" where
  "xsd_datatype variantType =
     (let dtype = ''xsd:string'';
          dtype = (if variantType = ''short'' \<or> variantType = ''long'' \<or> variantType = ''float''
                      \<or> variantType = ''double''
                   then ''xsd:'' @ variantType else dtype)
      in if variantType = ''int'' then ''xsd:integer''
         else if variantType = ''bit'' then ''xsd:boolean''
         else if variantType = ''char'' \<or> variantType = ''signed char'' then ''xsd:byte''
         else if variantType = ''unsigned char'' then ''xsd:unsignedByte''
         else if variantType = ''unsigned short'' then ''xsd:unsignedShort''
         else if variantType = ''unsigned int'' then ''xsd:unsignedInt''
         else if variantType = ''unsigned long'' \<or> variantType = ''unsigned __int64''
                 \<or> variantType = ''idtype'' then ''xsd:unsignedLong''
         else if variantType = ''__int64'' then ''xsd:long''
         else dtype)"

text \<open>The value of the \<open>ref\<close> attribute, from the authority found on the array and
  the name of the array.\<close>

definition property_ref :: "string \<Rightarrow> string \<Rightarrow> string" where
  "property_ref authority arrayName =
     (let prefix = ''property.'';
          strBegin = (case string_find arrayName prefix of
                        None \<Rightarrow> 0
                      | Some i \<Rightarrow> i + length prefix);
          propertyName = substr arrayName strBegin (length arrayName - strBegin + 1)
      in authority @ '':'' @ propertyName)"

text \<open>The property element that \<^verbatim>\<open>WritePropertyElement\<close> builds from what the loop
  over the information entries found, the name of the array and the value read.\<close>

definition PropertyElement ::
  "string \<Rightarrow> string \<Rightarrow> string \<Rightarrow> string \<Rightarrow> vtkVariant \<Rightarrow> vtkXMLDataElement" where
  "PropertyElement authority0 appliesTo0 unit arrayName v =
     (let authority = (if authority0 = [] then ''VTK'' else authority0);
          appliesTo = (if appliesTo0 = [] then ''clade'' else appliesTo0);
          ref = property_ref authority arrayName;
          variantType = GetTypeAsString v;
          dtype = xsd_datatype variantType;
          val = ToString v;
          propertyElement = NewElement ''property'';
          propertyElement = SetAttribute propertyElement ''datatype'' (Str dtype);
          propertyElement = SetAttribute propertyElement ''ref'' (Str ref);
          propertyElement = SetAttribute propertyElement ''applies_to'' (Str appliesTo);
          propertyElement = (if unit \<noteq> [] then SetAttribute propertyElement ''unit'' (Str unit)
                             else propertyElement)
      in SetCharacterData propertyElement (Str val))"

definition WritePropertyElement ::
  "vtkAbstractArray \<Rightarrow> vtkIdType \<Rightarrow> vtkPhyloXMLTreeWriter \<Rightarrow> vtkXMLDataElement
   \<Rightarrow> failure + (vtkPhyloXMLTreeWriter \<times> vtkXMLDataElement)" where
  "WritePropertyElement array vertex w element =
     bind (scan_information (Information array) ([], [], [])) (\<lambda>(authority, appliesTo, unit).
       let arrayName = Name array;
           w1 = (if vertex = -1 then IgnoreArray w arrayName else w);
           vertex1 = (if vertex = -1 then 0 else vertex)
       in bind (GetVariantValue array vertex1) (\<lambda>v.
            Inr (w1\<lparr>PropertyCalls := PropertyCalls w1 @ [(array, vertex)]\<rparr>,
                 AddNestedElement element (PropertyElement authority appliesTo unit arrayName v))))"

section \<open>The tree-level elements\<close>

definition WriteTreeLevelElement ::
  "vtkTree \<Rightarrow> string \<Rightarrow> string \<Rightarrow> vtkPhyloXMLTreeWriter \<Rightarrow> vtkXMLDataElement
   \<Rightarrow> failure + (vtkPhyloXMLTreeWriter \<times> vtkXMLDataElement)" where
  "WriteTreeLevelElement input elementName attributeName w rootElement =
     (let arrayName = ''phylogeny.'' @ elementName
      in case GetAbstractArray (GetVertexData input) arrayName of
           None \<Rightarrow> Inr (w, rootElement)
         | Some array \<Rightarrow>
             bind (GetVariantValue array 0) (\<lambda>v.
               let element = NewElement elementName;
                   val = ToString v;
                   element = SetCharacterData element (Str val);
                   element =
                     (if attributeName \<noteq> []
                      then (let attributeValue = GetArrayAttribute array attributeName
                            in if attributeValue \<noteq> []
                               then SetAttribute element attributeName (Str attributeValue)
                               else element)
                      else element)
               in Inr (IgnoreArray w arrayName, AddNestedElement rootElement element)))"

text \<open>\<^verbatim>\<open>arrName.compare(0, prefix.length(), prefix) == 0\<close>.\<close>

definition compare_prefix :: "string \<Rightarrow> string \<Rightarrow> bool" where
  "compare_prefix arrName prefix = (take (length prefix) arrName = prefix)"

text \<open>The loop of \<^verbatim>\<open>WriteTreeLevelProperties\<close> over the vertex arrays.\<close>

fun WriteTreeLevelProperties_loop ::
  "vtkAbstractArray list \<Rightarrow> vtkPhyloXMLTreeWriter \<Rightarrow> vtkXMLDataElement
   \<Rightarrow> failure + (vtkPhyloXMLTreeWriter \<times> vtkXMLDataElement)" where
  "WriteTreeLevelProperties_loop [] w element = Inr (w, element)"
| "WriteTreeLevelProperties_loop (arr # rest) w element =
     (if compare_prefix (Name arr) ''phylogeny.property.''
      then bind (WritePropertyElement arr (-1) w element)
             (\<lambda>(w', element'). WriteTreeLevelProperties_loop rest w' element')
      else WriteTreeLevelProperties_loop rest w element)"

definition WriteTreeLevelProperties ::
  "vtkTree \<Rightarrow> vtkPhyloXMLTreeWriter \<Rightarrow> vtkXMLDataElement
   \<Rightarrow> failure + (vtkPhyloXMLTreeWriter \<times> vtkXMLDataElement)" where
  "WriteTreeLevelProperties input w element =
     WriteTreeLevelProperties_loop (GetVertexData input) w element"

section \<open>The clade elements\<close>

definition WriteBranchLengthAttribute ::
  "vtkTree \<Rightarrow> vtkIdType \<Rightarrow> vtkPhyloXMLTreeWriter \<Rightarrow> vtkXMLDataElement
   \<Rightarrow> failure + (vtkPhyloXMLTreeWriter \<times> vtkXMLDataElement)" where
  "WriteBranchLengthAttribute input vertex w element =
     (case EdgeWeightArray w of
        None \<Rightarrow> Inr (w, element)
      | Some edgeWeightArray \<Rightarrow>
          bind (let parent = GetParent input vertex
                in if parent \<noteq> -1
                   then (let edge = GetEdgeId input parent vertex
                         in if edge \<noteq> -1
                            then bind (GetVariantValue edgeWeightArray edge) (\<lambda>v.
                                   Inr (SetAttribute element ''branch_length'' (Num (ToDouble v))))
                            else Inr element)
                   else Inr element) (\<lambda>element'.
            Inr (if LookupValue (Blacklist w) (Name edgeWeightArray) = -1
                 then IgnoreArray w (Name edgeWeightArray) else w, element')))"

definition WriteNameElement ::
  "vtkIdType \<Rightarrow> vtkPhyloXMLTreeWriter \<Rightarrow> vtkXMLDataElement
   \<Rightarrow> failure + (vtkPhyloXMLTreeWriter \<times> vtkXMLDataElement)" where
  "WriteNameElement vertex w element =
     (case NodeNameArray w of
        None \<Rightarrow> Inr (w, element)
      | Some nodeNameArray \<Rightarrow>
          bind (GetVariantValue nodeNameArray vertex) (\<lambda>v.
            let name = ToString v;
                element' =
                  (if name \<noteq> []
                   then AddNestedElement element (SetCharacterData (NewElement ''name'') (Str name))
                   else element)
            in Inr (if LookupValue (Blacklist w) (Name nodeNameArray) = -1
                    then IgnoreArray w (Name nodeNameArray) else w, element')))"

definition WriteConfidenceElement ::
  "vtkTree \<Rightarrow> vtkIdType \<Rightarrow> vtkPhyloXMLTreeWriter \<Rightarrow> vtkXMLDataElement
   \<Rightarrow> failure + (vtkPhyloXMLTreeWriter \<times> vtkXMLDataElement)" where
  "WriteConfidenceElement input vertex w element =
     (case GetAbstractArray (GetVertexData input) ''confidence'' of
        None \<Rightarrow> Inr (w, element)
      | Some confidenceArray \<Rightarrow>
          bind (GetVariantValue confidenceArray vertex) (\<lambda>v.
            let confidence = ToString v;
                element' =
                  (if confidence \<noteq> []
                   then (let confidenceElement = NewElement ''confidence'';
                             type = GetArrayAttribute confidenceArray ''type'';
                             confidenceElement =
                               (if type \<noteq> [] then SetAttribute confidenceElement ''type'' (Str type)
                                else confidenceElement);
                             confidenceElement = SetCharacterData confidenceElement (Str confidence)
                         in AddNestedElement element confidenceElement)
                   else element)
            in Inr (if LookupValue (Blacklist w) ''confidence'' = -1
                    then IgnoreArray w ''confidence'' else w, element')))"

text \<open>\<^verbatim>\<open>vtkArrayDownCast<vtkUnsignedCharArray>\<close>: null for a null pointer and for an array
  of another class.\<close>

definition vtkArrayDownCast_UnsignedChar :: "vtkAbstractArray option \<Rightarrow> vtkAbstractArray option" where
  "vtkArrayDownCast_UnsignedChar a =
     (case a of
        None \<Rightarrow> None
      | Some array \<Rightarrow> if ArrayClass array = vtkUnsignedCharArray then Some array else None)"

definition WriteColorElement ::
  "vtkTree \<Rightarrow> vtkIdType \<Rightarrow> vtkPhyloXMLTreeWriter \<Rightarrow> vtkXMLDataElement
   \<Rightarrow> failure + (vtkPhyloXMLTreeWriter \<times> vtkXMLDataElement)" where
  "WriteColorElement input vertex w element =
     (case vtkArrayDownCast_UnsignedChar (GetAbstractArray (GetVertexData input) ''color'') of
        None \<Rightarrow> Inr (w, element)
      | Some colorArray \<Rightarrow>
          bind (GetComponent colorArray vertex 0) (\<lambda>r.
          bind (GetComponent colorArray vertex 1) (\<lambda>g.
          bind (GetComponent colorArray vertex 2) (\<lambda>b.
            let colorElement = NewElement ''color'';
                redElement = SetCharacterData (NewElement ''red'') (Num r);
                greenElement = SetCharacterData (NewElement ''green'') (Num g);
                blueElement = SetCharacterData (NewElement ''blue'') (Num b);
                colorElement = AddNestedElement colorElement redElement;
                colorElement = AddNestedElement colorElement greenElement;
                colorElement = AddNestedElement colorElement blueElement
            in Inr (if LookupValue (Blacklist w) ''color'' = -1 then IgnoreArray w ''color'' else w,
                    AddNestedElement element colorElement)))))"

text \<open>The loop of \<^verbatim>\<open>WriteCladeElement\<close> over the vertex arrays.\<close>

fun WriteCladeProperties ::
  "vtkAbstractArray list \<Rightarrow> vtkIdType \<Rightarrow> vtkPhyloXMLTreeWriter \<Rightarrow> vtkXMLDataElement
   \<Rightarrow> failure + (vtkPhyloXMLTreeWriter \<times> vtkXMLDataElement)" where
  "WriteCladeProperties [] vertex w cladeElement = Inr (w, cladeElement)"
| "WriteCladeProperties (array # rest) vertex w cladeElement =
     (if same_array array (NodeNameArray w) \<or> same_array array (EdgeWeightArray w)
      then WriteCladeProperties rest vertex w cladeElement
      else if LookupValue (Blacklist w) (Name array) \<noteq> -1
      then WriteCladeProperties rest vertex w cladeElement
      else bind (WritePropertyElement array vertex w cladeElement)
             (\<lambda>(w', cladeElement'). WriteCladeProperties rest vertex w' cladeElement'))"

text \<open>The content of a clade element before its nested clades: the four fixed
  writes and the loop over the vertex arrays, in the order of \<^verbatim>\<open>WriteCladeElement\<close>.\<close>

definition WriteCladeContent ::
  "vtkTree \<Rightarrow> vtkIdType \<Rightarrow> vtkPhyloXMLTreeWriter \<Rightarrow> vtkXMLDataElement
   \<Rightarrow> failure + (vtkPhyloXMLTreeWriter \<times> vtkXMLDataElement)" where
  "WriteCladeContent input vertex w cladeElement =
     bind (WriteBranchLengthAttribute input vertex w cladeElement) (\<lambda>(w, cladeElement).
     bind (WriteNameElement vertex w cladeElement) (\<lambda>(w, cladeElement).
     bind (WriteConfidenceElement input vertex w cladeElement) (\<lambda>(w, cladeElement).
     bind (WriteColorElement input vertex w cladeElement) (\<lambda>(w, cladeElement).
     WriteCladeProperties (GetVertexData input) vertex w cladeElement))))"

text \<open>
  \<^verbatim>\<open>WriteCladeElement\<close> calls itself for every child of the vertex. Nothing in the C++
  stops the recursion on a graph with a cycle, so the model takes a bound on the
  depth of the recursion; \<open>WriteChildClades\<close> is the loop over the children.
\<close>

function WriteCladeElement ::
  "nat \<Rightarrow> vtkTree \<Rightarrow> vtkIdType \<Rightarrow> vtkPhyloXMLTreeWriter \<Rightarrow> vtkXMLDataElement
   \<Rightarrow> failure + (vtkPhyloXMLTreeWriter \<times> vtkXMLDataElement)"
and WriteChildClades ::
  "nat \<Rightarrow> vtkTree \<Rightarrow> vtkIdType list \<Rightarrow> vtkPhyloXMLTreeWriter \<Rightarrow> vtkXMLDataElement
   \<Rightarrow> failure + (vtkPhyloXMLTreeWriter \<times> vtkXMLDataElement)" where
  "WriteCladeElement 0 input vertex w parentElement = Inl OutOfFuel"
| "WriteCladeElement (Suc fuel) input vertex w parentElement =
     bind (WriteCladeContent input vertex w (NewElement ''clade'')) (\<lambda>(w, cladeElement).
     bind (WriteChildClades fuel input (GetChildren input vertex) w cladeElement) (\<lambda>(w, cladeElement).
     Inr (w, AddNestedElement parentElement cladeElement)))"
| "WriteChildClades fuel input [] w cladeElement = Inr (w, cladeElement)"
| "WriteChildClades fuel input (child # rest) w cladeElement =
     bind (WriteCladeElement fuel input child w cladeElement) (\<lambda>(w, cladeElement).
     WriteChildClades fuel input rest w cladeElement)"
  by pat_completeness auto
termination
  by (relation "inv_image (less_than <*lex*> less_than)
        (\<lambda>x. case x of Inl (fuel, _) \<Rightarrow> (fuel, 0)
                      | Inr (fuel, _, children, _) \<Rightarrow> (fuel, Suc (length children)))") auto

section \<open>Writing the document\<close>

text \<open>
  The part of \<^verbatim>\<open>WriteData\<close> that builds the \<open>phylogeny\<close> element: the tree-level
  elements, then the clade of the root.
\<close>

definition WriteData_rootElement ::
  "nat \<Rightarrow> vtkTree \<Rightarrow> vtkPhyloXMLTreeWriter \<Rightarrow> failure + (vtkPhyloXMLTreeWriter \<times> vtkXMLDataElement)" where
  "WriteData_rootElement fuel input w =
     (let rootElement = NewElement ''phylogeny'';
          rootElement = SetAttribute rootElement ''rooted'' (Str ''true'')
      in bind (WriteTreeLevelElement input ''name'' [] w rootElement) (\<lambda>(w, rootElement).
         bind (WriteTreeLevelElement input ''description'' [] w rootElement) (\<lambda>(w, rootElement).
         bind (WriteTreeLevelElement input ''confidence'' ''type'' w rootElement) (\<lambda>(w, rootElement).
         bind (WriteTreeLevelProperties input w rootElement) (\<lambda>(w, rootElement).
         WriteCladeElement fuel input (GetRoot input) w rootElement)))))"

text \<open>
  \<^verbatim>\<open>WriteData\<close>. \<open>PrintXML\<close> is the text that \<^verbatim>\<open>vtkXMLDataElement::PrintXML\<close> writes for
  an element. The value returned by \<^verbatim>\<open>EndFile\<close> is not looked at.
\<close>

definition WriteData ::
  "nat \<Rightarrow> (vtkXMLDataElement \<Rightarrow> string) \<Rightarrow> vtkTree \<Rightarrow> vtkPhyloXMLTreeWriter
   \<Rightarrow> failure + (int \<times> vtkPhyloXMLTreeWriter)" where
  "WriteData fuel PrintXML input w =
     (let w = w\<lparr>EdgeWeightArray := GetAbstractArray (GetEdgeData input) (EdgeWeightArrayName w)\<rparr>;
          w = w\<lparr>NodeNameArray := GetAbstractArray (GetVertexData input) (NodeNameArrayName w)\<rparr>;
          (started, w) = StartFile w
      in if started = 0 then Inr (0, w)
         else bind (WriteData_rootElement fuel input w) (\<lambda>(w, rootElement).
                let w = w\<lparr>Stream := os_put (Stream w) (PrintXML rootElement)\<rparr>;
                    (ended, w) = EndFile w
                in Inr (1, w)))"


section \<open>Names used in the statements\<close>

text \<open>The type names that the conversion to a \<open>datatype\<close> attribute tells apart.\<close>

definition recognized_types :: "string list" where
  "recognized_types = [''short'', ''long'', ''float'', ''double'', ''int'', ''bit'', ''char'',
     ''signed char'', ''unsigned char'', ''unsigned short'', ''unsigned int'', ''unsigned long'',
     ''unsigned __int64'', ''idtype'', ''__int64'']"

text \<open>The strings stored under the string keys of a given name, in the order of the
  entries.\<close>

fun string_values :: "info_entry list \<Rightarrow> string \<Rightarrow> string list" where
  "string_values [] k = []"
| "string_values (StringEntry k' v # es) k =
     (if k' = k then v # string_values es k else string_values es k)"
| "string_values (OtherEntry k' # es) k = string_values es k"

text \<open>An entry whose key is a vtkInformationStringKey.\<close>

fun is_string_key :: "info_entry \<Rightarrow> bool" where
  "is_string_key (StringEntry k v) = True"
| "is_string_key (OtherEntry k) = False"

section \<open>Concrete inputs\<close>

definition mk_variant :: "string \<Rightarrow> string \<Rightarrow> rat \<Rightarrow> vtkVariant" where
  "mk_variant t s d = \<lparr>GetTypeAsString = t, ToString = s, ToDouble = d\<rparr>"

definition good_stream :: ostream where
  "good_stream = \<lparr>Written = [], Fail = False, FlushFaults = []\<rparr>"

text \<open>A stream on which the two flushes of \<^verbatim>\<open>StartFile\<close> succeed and the flush of
  \<^verbatim>\<open>EndFile\<close> fails.\<close>

definition closing_fault_stream :: ostream where
  "closing_fault_stream = \<lparr>Written = [], Fail = False, FlushFaults = [False, False, True]\<rparr>"

text \<open>A stand-in for \<^verbatim>\<open>PrintXML\<close>: the names of the element and of what is nested in
  it, in brackets.\<close>

fun print_names :: "vtkXMLDataElement \<Rightarrow> string" where
  "print_names (Element n as c es) = ''<'' @ n @ ''>'' @ concat (map print_names es) @ ''</>''"

text \<open>A tree of one vertex with the given vertex arrays and no edge array.\<close>

definition single_vertex_tree :: "vtkAbstractArray list \<Rightarrow> vtkTree" where
  "single_vertex_tree arrays =
     \<lparr>GetRoot = 0, GetChildren = (\<lambda>v. []), GetParent = (\<lambda>v. -1), GetEdgeId = (\<lambda>p c. -1),
      GetVertexData = arrays, GetEdgeData = []\<rparr>"

text \<open>An array \<open>habitat\<close> whose only information key is not a string key.\<close>

definition habitat_other_key :: vtkAbstractArray where
  "habitat_other_key =
     \<lparr>Addr = 1, Name = ''habitat'', ArrayClass = vtkOtherArray, NumberOfComponents = 1,
      Values = [mk_variant ''string'' ''forest'' 0], Information = [OtherEntry ''authority'']\<rparr>"

text \<open>An array \<open>habitat\<close> with a string key \<open>authority\<close>.\<close>

definition habitat_string_key :: vtkAbstractArray where
  "habitat_string_key =
     \<lparr>Addr = 1, Name = ''habitat'', ArrayClass = vtkOtherArray, NumberOfComponents = 1,
      Values = [mk_variant ''string'' ''forest'' 0],
      Information = [StringEntry ''authority'' ''NCBI'']\<rparr>"

text \<open>A tree-level property array: its name has \<open>property.\<close> after \<open>phylogeny.\<close>.\<close>

definition phylogeny_property_foo :: vtkAbstractArray where
  "phylogeny_property_foo =
     \<lparr>Addr = 1, Name = ''phylogeny.property.foo'', ArrayClass = vtkOtherArray,
      NumberOfComponents = 1, Values = [mk_variant ''string'' ''bar'' 0], Information = []\<rparr>"

text \<open>An array \<open>property.habitat\<close>.\<close>

definition property_habitat :: vtkAbstractArray where
  "property_habitat =
     \<lparr>Addr = 2, Name = ''property.habitat'', ArrayClass = vtkOtherArray,
      NumberOfComponents = 1, Values = [mk_variant ''string'' ''forest'' 0], Information = []\<rparr>"

text \<open>A vtkUnsignedCharArray \<open>color\<close> with one component per tuple and one tuple.\<close>

definition color_one_component :: vtkAbstractArray where
  "color_one_component =
     \<lparr>Addr = 1, Name = ''color'', ArrayClass = vtkUnsignedCharArray, NumberOfComponents = 1,
      Values = [mk_variant ''unsigned char'' ''255'' 255], Information = []\<rparr>"

text \<open>An array \<open>color\<close> of doubles, three components per tuple.\<close>

definition color_of_doubles :: vtkAbstractArray where
  "color_of_doubles =
     \<lparr>Addr = 1, Name = ''color'', ArrayClass = vtkOtherArray, NumberOfComponents = 3,
      Values = [mk_variant ''double'' ''1'' 1, mk_variant ''double'' ''0'' 0,
                mk_variant ''double'' ''0'' 0], Information = []\<rparr>"

text \<open>An array \<open>phylogeny.name\<close>.\<close>

definition phylogeny_name :: vtkAbstractArray where
  "phylogeny_name =
     \<lparr>Addr = 1, Name = ''phylogeny.name'', ArrayClass = vtkOtherArray, NumberOfComponents = 1,
      Values = [mk_variant ''string'' ''Primates'' 0], Information = []\<rparr>"

section \<open>Notions used in the statements about a whole write\<close>

text \<open>Two states of the writer with the same configuration, arrays, error code and
  stream: they differ at most in the blacklist and in the recorded calls.\<close>

definition same_config :: "vtkPhyloXMLTreeWriter \<Rightarrow> vtkPhyloXMLTreeWriter \<Rightarrow> bool" where
  "same_config w w' \<longleftrightarrow>
     EdgeWeightArrayName w' = EdgeWeightArrayName w \<and> NodeNameArrayName w' = NodeNameArrayName w
     \<and> EdgeWeightArray w' = EdgeWeightArray w \<and> NodeNameArray w' = NodeNameArray w
     \<and> ErrorCode w' = ErrorCode w \<and> Stream w' = Stream w"

text \<open>The state \<open>w'\<close> is \<open>w\<close> with names of \<open>N\<close> appended to the blacklist, after which
  all of \<open>N\<close> is in the blacklist.\<close>

definition grows :: "string set \<Rightarrow> vtkPhyloXMLTreeWriter \<Rightarrow> vtkPhyloXMLTreeWriter \<Rightarrow> bool" where
  "grows N w w' \<longleftrightarrow>
     same_config w w' \<and> PropertyCalls w' = PropertyCalls w
     \<and> (\<exists>added. Blacklist w' = Blacklist w @ added \<and> set added \<subseteq> N)
     \<and> N \<subseteq> set (Blacklist w')"

text \<open>The names that the four fixed writes of a clade put on the blacklist.\<close>

definition branch_length_names :: "vtkPhyloXMLTreeWriter \<Rightarrow> string set" where
  "branch_length_names w = (case EdgeWeightArray w of None \<Rightarrow> {} | Some a \<Rightarrow> {Name a})"

definition node_name_names :: "vtkPhyloXMLTreeWriter \<Rightarrow> string set" where
  "node_name_names w = (case NodeNameArray w of None \<Rightarrow> {} | Some a \<Rightarrow> {Name a})"

definition confidence_names :: "vtkTree \<Rightarrow> string set" where
  "confidence_names input =
     (case GetAbstractArray (GetVertexData input) ''confidence'' of
        None \<Rightarrow> {} | Some a \<Rightarrow> {''confidence''})"

definition color_names :: "vtkTree \<Rightarrow> string set" where
  "color_names input =
     (case vtkArrayDownCast_UnsignedChar (GetAbstractArray (GetVertexData input) ''color'') of
        None \<Rightarrow> {} | Some a \<Rightarrow> {''color''})"

definition fixed_names :: "vtkTree \<Rightarrow> vtkPhyloXMLTreeWriter \<Rightarrow> string set" where
  "fixed_names input w =
     branch_length_names w \<union> node_name_names w \<union> confidence_names input \<union> color_names input"

text \<open>The number of elements named \<open>clade\<close> in an element, at any depth.\<close>

fun count_clades :: "vtkXMLDataElement \<Rightarrow> nat" where
  "count_clades (Element n as c es) =
     (if n = ''clade'' then 1 else 0) + sum_list (map count_clades es)"

text \<open>The element \<open>el'\<close> is \<open>el\<close> with further nested elements, none of which contains
  a clade.\<close>

definition extends :: "vtkXMLDataElement \<Rightarrow> vtkXMLDataElement \<Rightarrow> bool" where
  "extends el el' \<longleftrightarrow>
     ElementName el' = ElementName el
     \<and> (\<exists>extra. NestedElements el' = NestedElements el @ extra
                \<and> (\<forall>e \<in> set extra. count_clades e = 0))"

text \<open>The state \<open>w'\<close> comes from \<open>w\<close> by appending to the blacklist and by calls of
  \<^verbatim>\<open>WritePropertyElement\<close> on arrays whose names are outside \<open>N\<close>.\<close>

definition calls_avoid :: "string set \<Rightarrow> vtkPhyloXMLTreeWriter \<Rightarrow> vtkPhyloXMLTreeWriter \<Rightarrow> bool" where
  "calls_avoid N w w' \<longleftrightarrow>
     same_config w w'
     \<and> (\<exists>added. Blacklist w' = Blacklist w @ added)
     \<and> (\<exists>new. PropertyCalls w' = PropertyCalls w @ new \<and> (\<forall>(a, u) \<in> set new. Name a \<notin> N))"

text \<open>The names that the tree-level writes append to the blacklist, in their order,
  and the arrays that \<^verbatim>\<open>WriteTreeLevelProperties\<close> writes.\<close>

definition tree_level_element_names :: "vtkTree \<Rightarrow> string \<Rightarrow> string list" where
  "tree_level_element_names input elementName =
     (case GetAbstractArray (GetVertexData input) (''phylogeny.'' @ elementName) of
        None \<Rightarrow> [] | Some a \<Rightarrow> [''phylogeny.'' @ elementName])"

definition tree_level_properties :: "vtkTree \<Rightarrow> vtkAbstractArray list" where
  "tree_level_properties input =
     filter (\<lambda>a. compare_prefix (Name a) ''phylogeny.property.'') (GetVertexData input)"

definition tree_level_names :: "vtkTree \<Rightarrow> string list" where
  "tree_level_names input =
     tree_level_element_names input ''name'' @ tree_level_element_names input ''description''
     @ tree_level_element_names input ''confidence'' @ map Name (tree_level_properties input)"

text \<open>The first two statements of \<^verbatim>\<open>WriteData\<close>: the writer with its two array
  pointers looked up in the input.\<close>

definition with_arrays :: "vtkTree \<Rightarrow> vtkPhyloXMLTreeWriter \<Rightarrow> vtkPhyloXMLTreeWriter" where
  "with_arrays input w =
     w\<lparr>EdgeWeightArray := GetAbstractArray (GetEdgeData input) (EdgeWeightArrayName w),
       NodeNameArray := GetAbstractArray (GetVertexData input) (NodeNameArrayName w)\<rparr>"

text \<open>
  The arrays that the writer treats by a fixed rule: the edge array found under the
  edge weight name, the vertex array found under the node name, a vertex array named
  \<open>confidence\<close>, a vertex array named \<open>color\<close> when the array found under that name is a
  vtkUnsignedCharArray, a vertex array named \<open>phylogeny.name\<close>,
  \<open>phylogeny.description\<close> or \<open>phylogeny.confidence\<close>, and a vertex array whose name
  starts with \<open>phylogeny.property.\<close>.
\<close>

definition fixed_category :: "vtkTree \<Rightarrow> vtkPhyloXMLTreeWriter \<Rightarrow> vtkAbstractArray \<Rightarrow> bool" where
  "fixed_category input w c \<longleftrightarrow>
     GetAbstractArray (GetEdgeData input) (EdgeWeightArrayName w) = Some c
   \<or> GetAbstractArray (GetVertexData input) (NodeNameArrayName w) = Some c
   \<or> (c \<in> set (GetVertexData input) \<and> Name c = ''confidence'')
   \<or> (c \<in> set (GetVertexData input) \<and> Name c = ''color''
        \<and> vtkArrayDownCast_UnsignedChar (GetAbstractArray (GetVertexData input) ''color'') \<noteq> None)
   \<or> (c \<in> set (GetVertexData input)
        \<and> Name c \<in> {''phylogeny.name'', ''phylogeny.description'', ''phylogeny.confidence''})
   \<or> (c \<in> set (GetVertexData input) \<and> compare_prefix (Name c) ''phylogeny.property.'')"

text \<open>Two writes of the same input with the same writer object, the second on a
  stream in the state in which the first one started.\<close>

definition WriteData_twice ::
  "nat \<Rightarrow> (vtkXMLDataElement \<Rightarrow> string) \<Rightarrow> vtkTree \<Rightarrow> vtkPhyloXMLTreeWriter
   \<Rightarrow> failure + (int \<times> vtkPhyloXMLTreeWriter)" where
  "WriteData_twice fuel PrintXML input w =
     bind (WriteData fuel PrintXML input w) (\<lambda>(r, w1).
       WriteData fuel PrintXML input (w1\<lparr>Stream := Stream w\<rparr>))"

text \<open>A tree of three vertices: the root \<open>0\<close> with the children \<open>1\<close> and \<open>2\<close>, the edges
  \<open>0\<close> and \<open>1\<close>. It has an edge array \<open>weight\<close> and a vertex array of the same name.\<close>

definition strings3 :: "nat \<Rightarrow> string \<Rightarrow> string \<Rightarrow> string \<Rightarrow> string \<Rightarrow> vtkAbstractArray" where
  "strings3 addr n a b c =
     \<lparr>Addr = addr, Name = n, ArrayClass = vtkOtherArray, NumberOfComponents = 1,
      Values = [mk_variant ''string'' a 0, mk_variant ''string'' b 0, mk_variant ''string'' c 0],
      Information = []\<rparr>"

definition edge_weight :: vtkAbstractArray where
  "edge_weight =
     \<lparr>Addr = 10, Name = ''weight'', ArrayClass = vtkOtherArray, NumberOfComponents = 1,
      Values = [mk_variant ''double'' ''1.5'' (3/2), mk_variant ''double'' ''2.25'' (9/4)],
      Information = []\<rparr>"

definition vertex_weight :: vtkAbstractArray where
  "vertex_weight =
     \<lparr>Addr = 11, Name = ''weight'', ArrayClass = vtkOtherArray, NumberOfComponents = 1,
      Values = [mk_variant ''int'' ''7'' 7, mk_variant ''int'' ''8'' 8, mk_variant ''int'' ''9'' 9],
      Information = []\<rparr>"

definition color_rgb :: vtkAbstractArray where
  "color_rgb =
     \<lparr>Addr = 12, Name = ''color'', ArrayClass = vtkUnsignedCharArray, NumberOfComponents = 3,
      Values = map (\<lambda>d. mk_variant ''unsigned char'' [] d) [255, 0, 0, 0, 255, 0, 0, 0, 255],
      Information = []\<rparr>"

definition example_tree :: vtkTree where
  "example_tree =
     \<lparr>GetRoot = 0,
      GetChildren = (\<lambda>v. if v = 0 then [1, 2] else []),
      GetParent = (\<lambda>v. if v = 1 \<or> v = 2 then 0 else -1),
      GetEdgeId = (\<lambda>p c. if p = 0 \<and> c = 1 then 0 else if p = 0 \<and> c = 2 then 1 else -1),
      GetVertexData =
        [strings3 13 ''node name'' ''root'' ''leafA'' ''leafB'', vertex_weight, color_rgb,
         strings3 14 ''phylogeny.name'' ''Primates'' [] [],
         strings3 15 ''property.habitat'' ''forest'' ''sea'' ''forest''],
      GetEdgeData = [edge_weight]\<rparr>"

text \<open>Two states of the writer with the same two array pointers.\<close>

definition same_arrays :: "vtkPhyloXMLTreeWriter \<Rightarrow> vtkPhyloXMLTreeWriter \<Rightarrow> bool" where
  "same_arrays w wa \<longleftrightarrow>
     EdgeWeightArray wa = EdgeWeightArray w \<and> NodeNameArray wa = NodeNameArray w"

text \<open>Two states with the same array pointers whose blacklists hold the same names
  once the names of the fixed writes of a clade are added.\<close>

definition similar :: "vtkTree \<Rightarrow> vtkPhyloXMLTreeWriter \<Rightarrow> vtkPhyloXMLTreeWriter \<Rightarrow> bool" where
  "similar input w wa \<longleftrightarrow>
     same_arrays w wa
     \<and> set (Blacklist w) \<union> fixed_names input w = set (Blacklist wa) \<union> fixed_names input w"

section \<open>The shape of the tree and of the document\<close>

text \<open>
  The tree that the recursion of \<^verbatim>\<open>WriteCladeElement\<close> walks through, as a value: a
  vertex with the subtrees of its children, in the order of \<^verbatim>\<open>GetChild\<close>.
\<close>

datatype rtree = RNode vtkIdType "rtree list"

fun rroot :: "rtree \<Rightarrow> vtkIdType" where
  "rroot (RNode v ts) = v"

text \<open>\<open>tree_at input t\<close>: below its root, the vtkTree is the tree \<open>t\<close>.\<close>

fun tree_at :: "vtkTree \<Rightarrow> rtree \<Rightarrow> bool" where
  "tree_at input (RNode v ts) =
     (map rroot ts = GetChildren input v \<and> (\<forall>t \<in> set ts. tree_at input t))"

fun nodes :: "rtree \<Rightarrow> nat" where
  "nodes (RNode v ts) = Suc (sum_list (map nodes ts))"

fun depth :: "rtree \<Rightarrow> nat" where
  "depth (RNode v ts) = Suc (foldr max (map depth ts) 0)"

fun vertices :: "rtree \<Rightarrow> vtkIdType list" where
  "vertices (RNode v ts) = v # concat (map vertices ts)"

text \<open>A tree without labels: the nesting alone.\<close>

datatype shape = Shape "shape list"

fun shape_of :: "rtree \<Rightarrow> shape" where
  "shape_of (RNode v ts) = Shape (map shape_of ts)"

text \<open>The nesting of the elements named \<open>clade\<close> directly below an element, and below
  these, in the order of the document.\<close>

fun clade_shape :: "vtkXMLDataElement \<Rightarrow> shape" where
  "clade_shape (Element n as c es) =
     Shape (map clade_shape (filter (\<lambda>e. ElementName e = ''clade'') es))"

text \<open>In an element and in the clades below it, the nested clades come after
  everything else that is nested.\<close>

fun clades_last :: "vtkXMLDataElement \<Rightarrow> bool" where
  "clades_last (Element n as c es) =
     (list_all (\<lambda>e. ElementName e = ''clade'') (dropWhile (\<lambda>e. ElementName e \<noteq> ''clade'') es)
      \<and> (\<forall>e \<in> set es. ElementName e = ''clade'' \<longrightarrow> clades_last e))"

text \<open>
  \<open>clade_for input t c\<close>: the element \<open>c\<close> is a clade for the tree \<open>t\<close>. It is what
  \<^verbatim>\<open>WriteCladeElement\<close> builds for the root of \<open>t\<close> in some state of the writer before it
  turns to the children (the four fixed writes and the properties of that vertex),
  followed by clades for the subtrees of \<open>t\<close>, one for each and in their order.
\<close>

inductive clade_for :: "vtkTree \<Rightarrow> rtree \<Rightarrow> vtkXMLDataElement \<Rightarrow> bool" for input where
  "WriteCladeContent input v w (NewElement ''clade'') = Inr (w', c0) \<Longrightarrow>
   ElementName c = ElementName c0 \<Longrightarrow> Attributes c = Attributes c0 \<Longrightarrow>
   CharacterData c = CharacterData c0 \<Longrightarrow> NestedElements c = NestedElements c0 @ cl \<Longrightarrow>
   list_all2 (clade_for input) ts cl \<Longrightarrow>
     clade_for input (RNode v ts) c"

text \<open>
  The reads that the writer makes for vertex \<open>v\<close> stay inside the buffers: \<open>v\<close> is a
  row of every vertex array and of the node name array, the edge to \<open>v\<close> is a row of
  the edge weight array, and the three components of \<open>v\<close> are in the buffer of the
  color array.
\<close>

definition rows_ok :: "vtkTree \<Rightarrow> vtkPhyloXMLTreeWriter \<Rightarrow> vtkIdType \<Rightarrow> bool" where
  "rows_ok input w v \<longleftrightarrow>
     0 \<le> v
     \<and> (\<forall>a \<in> set (GetVertexData input). v < int (length (Values a)))
     \<and> (case NodeNameArray w of None \<Rightarrow> True | Some a \<Rightarrow> v < int (length (Values a)))
     \<and> (case EdgeWeightArray w of
           None \<Rightarrow> True
         | Some a \<Rightarrow>
             GetParent input v \<noteq> -1 \<longrightarrow> GetEdgeId input (GetParent input v) v \<noteq> -1 \<longrightarrow>
               0 \<le> GetEdgeId input (GetParent input v) v
               \<and> GetEdgeId input (GetParent input v) v < int (length (Values a)))
     \<and> (case vtkArrayDownCast_UnsignedChar (GetAbstractArray (GetVertexData input) ''color'') of
           None \<Rightarrow> True
         | Some a \<Rightarrow> int (NumberOfComponents a) * v + 2 < int (length (Values a)))"

text \<open>Every information key of every vertex array is a string key.\<close>

definition string_keys_only :: "vtkTree \<Rightarrow> bool" where
  "string_keys_only input \<longleftrightarrow>
     (\<forall>a \<in> set (GetVertexData input). \<forall>e \<in> set (Information a). is_string_key e)"

text \<open>The tree of the three vertices of \<open>example_tree\<close>.\<close>

definition example_rtree :: rtree where
  "example_rtree = RNode 0 [RNode 1 [], RNode 2 []]"

section \<open>Basic facts\<close>

lemma bind_simps [simp]: "bind (Inl e) f = Inl e" "bind (Inr x) f = f x"
  by (simp_all add: bind_def)

lemma bind_eq_Inr: "bind m f = Inr y \<longleftrightarrow> (\<exists>x. m = Inr x \<and> f x = Inr y)"
  by (cases m) simp_all

lemma GetAttribute_SetAttribute:
  "GetAttribute (SetAttribute e k v) k' = (if k' = k then Some v else GetAttribute e k')"
proof (cases e)
  case (Element n as c es)
  have "map_of (set_attr as k v) k' = (if k' = k then Some v else map_of as k')"
    by (induction as) auto
  with Element show ?thesis by simp
qed

lemma GetAttribute_SetCharacterData [simp]:
  "GetAttribute (SetCharacterData e d) k = GetAttribute e k"
  by (cases e) simp

lemma ElementName_SetAttribute [simp]: "ElementName (SetAttribute e k v) = ElementName e"
  by (cases e) simp

lemma ElementName_SetCharacterData [simp]: "ElementName (SetCharacterData e d) = ElementName e"
  by (cases e) simp

lemma ElementName_AddNestedElement [simp]: "ElementName (AddNestedElement e d) = ElementName e"
  by (cases e) simp

lemma ElementName_NewElement [simp]: "ElementName (NewElement n) = n"
  by (simp add: NewElement_def)

lemma PropertyElement_name [simp]: "ElementName (PropertyElement au ap un n v) = ''property''"
  by (simp add: PropertyElement_def Let_def)

lemma PropertyElement_datatype:
  "GetAttribute (PropertyElement au ap un n v) ''datatype''
     = Some (Str (xsd_datatype (GetTypeAsString v)))"
  by (simp add: PropertyElement_def Let_def GetAttribute_SetAttribute)

lemma PropertyElement_ref:
  "GetAttribute (PropertyElement au ap un n v) ''ref''
     = Some (Str (property_ref (if au = [] then ''VTK'' else au) n))"
  by (simp add: PropertyElement_def Let_def GetAttribute_SetAttribute)

lemma WritePropertyElement_Inr:
  assumes "WritePropertyElement array vertex w element = Inr (w', element')"
  shows "\<exists>authority appliesTo unit v.
           scan_information (Information array) ([], [], []) = Inr (authority, appliesTo, unit)
         \<and> GetVariantValue array (if vertex = -1 then 0 else vertex) = Inr v
         \<and> w' = (if vertex = -1 then IgnoreArray w (Name array) else w)
                  \<lparr>PropertyCalls := PropertyCalls w @ [(array, vertex)]\<rparr>
         \<and> element' = AddNestedElement element (PropertyElement authority appliesTo unit (Name array) v)"
  using assms unfolding WritePropertyElement_def Let_def
  by (auto simp: bind_eq_Inr IgnoreArray_def)

section \<open>The \<open>ref\<close> attribute\<close>

lemma take_eq_iff_append: "take (length p) s = p \<longleftrightarrow> (\<exists>rest. s = p @ rest)"
  by (metis append_eq_conv_conj append_take_drop_id)

lemma find_from_Some:
  "find_from p s i = Some j \<Longrightarrow>
     \<exists>pre rest. s = pre @ p @ rest \<and> j = i + length pre
        \<and> (\<forall>pre' rest'. s = pre' @ p @ rest' \<longrightarrow> length pre \<le> length pre')"
proof (induction s arbitrary: i)
  case Nil
  then show ?case by (auto split: if_splits)
next
  case (Cons c s)
  show ?case
  proof (cases "take (length p) (c # s) = p")
    case True
    then obtain rest where r: "c # s = p @ rest" using take_eq_iff_append by blast
    from True Cons.prems have "j = i" by simp
    with r show ?thesis by (intro exI[of _ "[]::string"] exI[of _ rest]) simp
  next
    case False
    with Cons.prems have "find_from p s (Suc i) = Some j" by simp
    from Cons.IH[OF this] obtain pre rest where
      pr: "s = pre @ p @ rest" "j = Suc i + length pre"
      "\<forall>pre' rest'. s = pre' @ p @ rest' \<longrightarrow> length pre \<le> length pre'" by blast
    have "\<forall>pre' rest'. c # s = pre' @ p @ rest' \<longrightarrow> length (c # pre) \<le> length pre'"
    proof (intro allI impI)
      fix pre' rest' assume a: "c # s = pre' @ p @ rest'"
      show "length (c # pre) \<le> length pre'"
      proof (cases pre')
        case Nil
        with a have "c # s = p @ rest'" by simp
        then have "take (length p) (c # s) = p" using take_eq_iff_append by blast
        with False show ?thesis by simp
      next
        case (Cons d pre'')
        with a have "s = pre'' @ p @ rest'" by simp
        with pr(3) have "length pre \<le> length pre''" by blast
        with Cons show ?thesis by simp
      qed
    qed
    moreover have "c # s = (c # pre) @ p @ rest" "j = i + length (c # pre)" using pr by simp_all
    ultimately show ?thesis by blast
  qed
qed

lemma find_from_None:
  "find_from p s i = None \<Longrightarrow> \<not> (\<exists>pre rest. s = pre @ p @ rest)"
proof (induction s arbitrary: i)
  case Nil
  then show ?case by (auto split: if_splits)
next
  case (Cons c s)
  from Cons.prems have nt: "take (length p) (c # s) \<noteq> p" and r: "find_from p s (Suc i) = None"
    by (auto split: if_splits)
  show ?case
  proof
    assume "\<exists>pre rest. c # s = pre @ p @ rest"
    then obtain pre rest where a: "c # s = pre @ p @ rest" by blast
    show False
    proof (cases pre)
      case Nil
      with a have "take (length p) (c # s) = p" using take_eq_iff_append by auto
      with nt show False by simp
    next
      case (Cons d pre')
      with a have "s = pre' @ p @ rest" by simp
      with Cons.IH[OF r] show False by blast
    qed
  qed
qed

lemma property_ref_found:
  assumes "arrayName = pre @ ''property.'' @ rest"
    and "\<forall>pre' rest'. arrayName = pre' @ ''property.'' @ rest' \<longrightarrow> length pre \<le> length pre'"
  shows "property_ref authority arrayName = authority @ '':'' @ rest"
proof -
  obtain j where j: "find_from ''property.'' arrayName 0 = Some j"
    using assms(1) find_from_None[of "''property.''" arrayName 0] by (cases "find_from ''property.'' arrayName 0") auto
  from find_from_Some[OF j] obtain pre2 rest2 where
    p2: "arrayName = pre2 @ ''property.'' @ rest2" "j = length pre2"
    "\<forall>pre' rest'. arrayName = pre' @ ''property.'' @ rest' \<longrightarrow> length pre2 \<le> length pre'" by auto
  have "length pre2 \<le> length pre" using assms(1) p2(3) by blast
  moreover have "length pre \<le> length pre2" using assms(2) p2(1) by blast
  ultimately have "length pre2 = length pre" by simp
  with assms(1) p2(1) have "pre2 = pre" "rest2 = rest" by auto
  with j p2 assms(1) show ?thesis
    by (simp add: property_ref_def string_find_def substr_def Let_def)
qed

lemma property_ref_not_found:
  assumes "\<not> (\<exists>pre rest. arrayName = pre @ ''property.'' @ rest)"
  shows "property_ref authority arrayName = authority @ '':'' @ arrayName"
proof -
  have "find_from ''property.'' arrayName 0 = None"
    using assms find_from_Some[of "''property.''" arrayName 0] by (cases "find_from ''property.'' arrayName 0") auto
  then show ?thesis by (simp add: property_ref_def string_find_def substr_def Let_def)
qed

section \<open>The information entries of an array\<close>

lemma scan_information_authority:
  "scan_information es (a0, p0, u0) = Inr (a, p, u) \<Longrightarrow>
     a = (if string_values es ''authority'' = [] then a0 else last (string_values es ''authority''))"
proof (induction es arbitrary: a0 p0 u0)
  case Nil
  then show ?case by simp
next
  case (Cons e es)
  show ?case
  proof (cases e)
    case (StringEntry k v)
    with Cons.prems Cons.IH show ?thesis by (auto split: if_splits)
  next
    case (OtherEntry k)
    with Cons.prems show ?thesis by simp
  qed
qed

lemma scan_information_Inr_iff:
  "(\<exists>r. scan_information es acc = Inr r) \<longleftrightarrow> (\<forall>e \<in> set es. is_string_key e)"
proof (induction es arbitrary: acc)
  case Nil
  then show ?case by (cases acc) auto
next
  case (Cons e es)
  obtain a p u where acc: "acc = (a, p, u)" by (cases acc) auto
  show ?case
  proof (cases e)
    case (StringEntry k v)
    with acc Cons.IH show ?thesis by simp
  next
    case (OtherEntry k)
    with acc show ?thesis by simp
  qed
qed

lemma scan_information_Inl:
  "scan_information es acc = Inl f \<Longrightarrow> f = NullDereference"
proof (induction es arbitrary: acc)
  case Nil
  then show ?case by simp
next
  case (Cons e es)
  obtain a p u where acc: "acc = (a, p, u)" by (cases acc) auto
  show ?case
  proof (cases e)
    case (StringEntry k v)
    with acc Cons.prems Cons.IH show ?thesis by (auto split: if_splits)
  next
    case (OtherEntry k)
    with acc Cons.prems show ?thesis by simp
  qed
qed

lemma scan_information_null:
  assumes "\<exists>e \<in> set es. \<not> is_string_key e"
  shows "scan_information es acc = Inl NullDereference"
proof (cases "scan_information es acc")
  case (Inl f)
  then show ?thesis using scan_information_Inl by blast
next
  case (Inr r)
  then show ?thesis using assms scan_information_Inr_iff by blast
qed

lemma GetArrayAttribute_loop_guarded:
  "\<forall>e \<in> set es. GetName_key e = attributeName \<longrightarrow> \<not> is_string_key e \<Longrightarrow>
     GetArrayAttribute_loop es attributeName = []"
proof (induction es)
  case Nil
  then show ?case by simp
next
  case (Cons e es)
  then show ?case by (cases e) auto
qed

lemma GetArrayAttribute_loop_string_values:
  "GetArrayAttribute_loop es attributeName =
     (case string_values es attributeName of [] \<Rightarrow> [] | v # vs \<Rightarrow> v)"
proof (induction es)
  case Nil
  then show ?case by simp
next
  case (Cons e es)
  then show ?case by (cases e) auto
qed

section \<open>Null keys and the datatype attribute\<close>

lemma GetVariantValue_Inl: "GetVariantValue a i = Inl f \<Longrightarrow> f = OutOfBounds"
  by (auto simp: GetVariantValue_def split: if_splits)

lemma WritePropertyElement_null:
  assumes "\<exists>e \<in> set (Information array). \<not> is_string_key e"
  shows "WritePropertyElement array vertex w element = Inl NullDereference"
  using scan_information_null[OF assms] by (simp add: WritePropertyElement_def)

lemma WritePropertyElement_not_null:
  assumes "\<forall>e \<in> set (Information array). is_string_key e"
  shows "WritePropertyElement array vertex w element \<noteq> Inl NullDereference"
proof -
  from assms obtain r where r: "scan_information (Information array) ([], [], []) = Inr r"
    using scan_information_Inr_iff by blast
  obtain a p u where "r = (a, p, u)" by (cases r) auto
  with r show ?thesis
    unfolding WritePropertyElement_def Let_def
    by (cases "GetVariantValue array (if vertex = -1 then 0 else vertex)")
       (auto dest: GetVariantValue_Inl)
qed

text \<open>
  Claim C10. The loop over the information entries at the head of
  \<^verbatim>\<open>WritePropertyElement\<close> is safe exactly when every key of the array is a string key:
  if some key is not a string key, the loop (and with it the call) dereferences a null
  pointer; if all keys are string keys, the loop finishes and the call does not
  dereference a null pointer. \<^verbatim>\<open>GetArrayAttribute\<close> checks the cast: when every key of
  the name asked for is not a string key, it returns the empty string.
\<close>

theorem metadata_scan_needs_string_keys:
  "((\<exists>e \<in> set (Information array). \<not> is_string_key e) \<longrightarrow>
       scan_information (Information array) acc = Inl NullDereference
     \<and> WritePropertyElement array vertex w element = Inl NullDereference)
   \<and> ((\<forall>e \<in> set (Information array). is_string_key e) \<longrightarrow>
       (\<exists>r. scan_information (Information array) acc = Inr r)
     \<and> WritePropertyElement array vertex w element \<noteq> Inl NullDereference)
   \<and> ((\<forall>e \<in> set (Information array). GetName_key e = attributeName \<longrightarrow> \<not> is_string_key e) \<longrightarrow>
       GetArrayAttribute array attributeName = [])"
  using scan_information_null[of "Information array" acc]
    WritePropertyElement_null[of array vertex w element]
    WritePropertyElement_not_null[of array vertex w element]
    scan_information_Inr_iff[of "Information array" acc]
    GetArrayAttribute_loop_guarded[of "Information array" attributeName]
  unfolding GetArrayAttribute_def by blast

theorem metadata_scan_needs_string_keys_witness:
  "scan_information (Information habitat_other_key) ([], [], []) = Inl NullDereference
   \<and> WritePropertyElement habitat_other_key 0 (New good_stream) (NewElement ''clade'')
       = Inl NullDereference
   \<and> GetArrayAttribute habitat_other_key ''authority'' = []
   \<and> (\<exists>r. scan_information (Information habitat_string_key) ([], [], []) = Inr r)
   \<and> WritePropertyElement habitat_string_key 0 (New good_stream) (NewElement ''clade'')
       \<noteq> Inl NullDereference"
proof -
  have a: "\<exists>e \<in> set (Information habitat_other_key). \<not> is_string_key e"
    by (simp add: habitat_other_key_def)
  have b: "\<forall>e \<in> set (Information habitat_other_key).
             GetName_key e = ''authority'' \<longrightarrow> \<not> is_string_key e"
    by (simp add: habitat_other_key_def)
  have c: "\<forall>e \<in> set (Information habitat_string_key). is_string_key e"
    by (simp add: habitat_string_key_def)
  show ?thesis
    using a b c
      metadata_scan_needs_string_keys[of habitat_other_key "([], [], [])" 0 "New good_stream"
        "NewElement ''clade''" "''authority''"]
      metadata_scan_needs_string_keys[of habitat_string_key "([], [], [])" 0 "New good_stream"
        "NewElement ''clade''" "''authority''"]
    by blast
qed

text \<open>
  Claim C4. The conversion of the type name of a value to the \<open>datatype\<close> attribute is
  a function with a value for every type name: \<open>unsigned char\<close> gives
  \<open>xsd:unsignedByte\<close>, \<open>int\<close> gives \<open>xsd:integer\<close>, \<open>bit\<close> gives \<open>xsd:boolean\<close>, each of
  \<open>short\<close>, \<open>long\<close>, \<open>float\<close>, \<open>double\<close> gives \<open>xsd:\<close> followed by that name,
  \<open>unsigned short\<close>, \<open>unsigned int\<close>, \<open>unsigned long\<close> give the \<open>xsd:unsigned\<close> tokens,
  \<open>__int64\<close> gives \<open>xsd:long\<close>, \<open>string\<close> and every type name that is not told apart
  give \<open>xsd:string\<close>; and this is the \<open>datatype\<close> attribute of every property element.
\<close>

theorem xsd_datatype_total:
  "xsd_datatype ''unsigned char'' = ''xsd:unsignedByte''
   \<and> xsd_datatype ''int'' = ''xsd:integer''
   \<and> xsd_datatype ''bit'' = ''xsd:boolean''
   \<and> xsd_datatype ''short'' = ''xsd:short''
   \<and> xsd_datatype ''long'' = ''xsd:long''
   \<and> xsd_datatype ''float'' = ''xsd:float''
   \<and> xsd_datatype ''double'' = ''xsd:double''
   \<and> xsd_datatype ''unsigned short'' = ''xsd:unsignedShort''
   \<and> xsd_datatype ''unsigned int'' = ''xsd:unsignedInt''
   \<and> xsd_datatype ''unsigned long'' = ''xsd:unsignedLong''
   \<and> xsd_datatype ''__int64'' = ''xsd:long''
   \<and> xsd_datatype ''string'' = ''xsd:string''
   \<and> (t \<notin> set recognized_types \<longrightarrow> xsd_datatype t = ''xsd:string'')
   \<and> GetAttribute (PropertyElement authority appliesTo unit arrayName v) ''datatype''
        = Some (Str (xsd_datatype (GetTypeAsString v)))"
proof -
  have "t \<notin> set recognized_types \<longrightarrow> xsd_datatype t = ''xsd:string''"
    by (simp add: xsd_datatype_def recognized_types_def)
  moreover have "xsd_datatype ''unsigned char'' = ''xsd:unsignedByte''"
    "xsd_datatype ''int'' = ''xsd:integer''"
    "xsd_datatype ''bit'' = ''xsd:boolean''"
    "xsd_datatype ''short'' = ''xsd:short''"
    "xsd_datatype ''long'' = ''xsd:long''"
    "xsd_datatype ''float'' = ''xsd:float''"
    "xsd_datatype ''double'' = ''xsd:double''"
    "xsd_datatype ''unsigned short'' = ''xsd:unsignedShort''"
    "xsd_datatype ''unsigned int'' = ''xsd:unsignedInt''"
    "xsd_datatype ''unsigned long'' = ''xsd:unsignedLong''"
    "xsd_datatype ''__int64'' = ''xsd:long''"
    "xsd_datatype ''string'' = ''xsd:string''"
    by (simp_all add: xsd_datatype_def)
  ultimately show ?thesis using PropertyElement_datatype by blast
qed

theorem xsd_datatype_total_witness:
  "''long long'' \<notin> set recognized_types \<and> xsd_datatype ''long long'' = ''xsd:string''"
proof -
  have h: "''long long'' \<notin> set recognized_types" by (simp add: recognized_types_def)
  show ?thesis using h xsd_datatype_total[of "''long long''"] by blast
qed

section \<open>The blacklist across the fixed writes of a clade\<close>

lemma LookupValue_range: "0 \<le> LookupValue bl s \<or> LookupValue bl s = -1"
  by (induction bl) (auto simp: Let_def)

lemma LookupValue_iff: "LookupValue bl s = -1 \<longleftrightarrow> s \<notin> set bl"
proof (induction bl)
  case Nil
  then show ?case by simp
next
  case (Cons x xs)
  then show ?case using LookupValue_range[of xs s] by (auto simp: Let_def)
qed

lemma same_config_refl [simp]: "same_config w w"
  by (simp add: same_config_def)

lemma same_config_trans: "same_config w w1 \<Longrightarrow> same_config w1 w2 \<Longrightarrow> same_config w w2"
  by (simp add: same_config_def)

lemma same_config_sym: "same_config w w1 \<Longrightarrow> same_config w1 w"
  by (simp add: same_config_def)

lemma same_config_IgnoreArray [simp]: "same_config w (IgnoreArray w n)"
  by (simp add: same_config_def IgnoreArray_def)

lemma grows_guarded:
  "grows {n} w (if LookupValue (Blacklist w) n = -1 then IgnoreArray w n else w)"
  by (auto simp: grows_def LookupValue_iff IgnoreArray_def same_config_def)

lemma grows_empty [simp]: "grows {} w w"
  by (simp add: grows_def)

lemma grows_set: "grows N w w' \<Longrightarrow> set (Blacklist w') = set (Blacklist w) \<union> N"
  by (auto simp: grows_def)

lemma grows_trans: "grows N w w1 \<Longrightarrow> grows M w1 w2 \<Longrightarrow> grows (N \<union> M) w w2"
  unfolding grows_def
  by (auto dest: same_config_trans)

lemma WriteBranchLengthAttribute_grows:
  "WriteBranchLengthAttribute input vertex w el = Inr (w', el') \<Longrightarrow> grows (branch_length_names w) w w'"
  unfolding WriteBranchLengthAttribute_def branch_length_names_def
  by (auto simp: bind_eq_Inr grows_guarded split: option.splits)

lemma WriteNameElement_grows:
  "WriteNameElement vertex w el = Inr (w', el') \<Longrightarrow> grows (node_name_names w) w w'"
  unfolding WriteNameElement_def node_name_names_def
  by (auto simp: bind_eq_Inr grows_guarded Let_def split: option.splits)

lemma WriteConfidenceElement_grows:
  "WriteConfidenceElement input vertex w el = Inr (w', el') \<Longrightarrow> grows (confidence_names input) w w'"
  unfolding WriteConfidenceElement_def confidence_names_def
  by (auto simp: bind_eq_Inr grows_guarded Let_def split: option.splits)

lemma WriteColorElement_grows:
  "WriteColorElement input vertex w el = Inr (w', el') \<Longrightarrow> grows (color_names input) w w'"
  unfolding WriteColorElement_def color_names_def
  by (auto simp: bind_eq_Inr grows_guarded Let_def split: option.splits)

section \<open>Elements across the writes of a clade\<close>

lemma count_clades_SetAttribute [simp]: "count_clades (SetAttribute e k v) = count_clades e"
  by (cases e) simp

lemma count_clades_SetCharacterData [simp]: "count_clades (SetCharacterData e d) = count_clades e"
  by (cases e) simp

lemma count_clades_AddNestedElement [simp]:
  "count_clades (AddNestedElement e x) = count_clades e + count_clades x"
  by (cases e) simp

lemma count_clades_NewElement [simp]:
  "count_clades (NewElement n) = (if n = ''clade'' then 1 else 0)"
  by (simp add: NewElement_def)

lemma count_clades_PropertyElement [simp]: "count_clades (PropertyElement au ap un n v) = 0"
  by (simp add: PropertyElement_def Let_def)

lemma NestedElements_SetAttribute [simp]: "NestedElements (SetAttribute e k v) = NestedElements e"
  by (cases e) simp

lemma NestedElements_SetCharacterData [simp]:
  "NestedElements (SetCharacterData e d) = NestedElements e"
  by (cases e) simp

lemma NestedElements_AddNestedElement [simp]:
  "NestedElements (AddNestedElement e x) = NestedElements e @ [x]"
  by (cases e) simp

lemma NestedElements_NewElement [simp]: "NestedElements (NewElement n) = []"
  by (simp add: NewElement_def)

lemma extends_refl [simp]: "extends el el"
  by (simp add: extends_def)

lemma extends_trans [trans]: "extends el el1 \<Longrightarrow> extends el1 el2 \<Longrightarrow> extends el el2"
  unfolding extends_def by auto

lemma extends_SetAttribute [simp]: "extends el (SetAttribute el k v)"
  by (simp add: extends_def)

lemma extends_AddNestedElement: "count_clades x = 0 \<Longrightarrow> extends el (AddNestedElement el x)"
  by (simp add: extends_def)

lemma WriteBranchLengthAttribute_extends:
  "WriteBranchLengthAttribute input vertex w el = Inr (w', el') \<Longrightarrow> extends el el'"
  unfolding WriteBranchLengthAttribute_def
  by (auto simp: bind_eq_Inr Let_def split: option.splits if_splits)

lemma WriteNameElement_extends:
  "WriteNameElement vertex w el = Inr (w', el') \<Longrightarrow> extends el el'"
  unfolding WriteNameElement_def
  by (auto simp: bind_eq_Inr Let_def extends_AddNestedElement split: option.splits if_splits)

lemma WriteConfidenceElement_extends:
  "WriteConfidenceElement input vertex w el = Inr (w', el') \<Longrightarrow> extends el el'"
  unfolding WriteConfidenceElement_def
  by (auto simp: bind_eq_Inr Let_def extends_AddNestedElement split: option.splits if_splits)

lemma WriteColorElement_extends:
  "WriteColorElement input vertex w el = Inr (w', el') \<Longrightarrow> extends el el'"
  unfolding WriteColorElement_def
  by (auto simp: bind_eq_Inr Let_def extends_AddNestedElement split: option.splits if_splits)

lemma WritePropertyElement_extends:
  "WritePropertyElement array vertex w el = Inr (w', el') \<Longrightarrow> extends el el'"
  by (auto dest!: WritePropertyElement_Inr simp: extends_AddNestedElement)

lemma WriteCladeProperties_extends:
  "WriteCladeProperties arrays vertex w el = Inr (w', el') \<Longrightarrow> extends el el'"
proof (induction arrays arbitrary: w el)
  case Nil
  then show ?case by simp
next
  case (Cons a arrays)
  show ?case
  proof (cases "same_array a (NodeNameArray w) \<or> same_array a (EdgeWeightArray w)
                 \<or> LookupValue (Blacklist w) (Name a) \<noteq> -1")
    case True
    with Cons.prems have "WriteCladeProperties arrays vertex w el = Inr (w', el')"
      by (cases "same_array a (NodeNameArray w) \<or> same_array a (EdgeWeightArray w)") simp_all
    then show ?thesis by (rule Cons.IH)
  next
    case False
    with Cons.prems obtain w1 el1 where
      p: "WritePropertyElement a vertex w el = Inr (w1, el1)"
      and r: "WriteCladeProperties arrays vertex w1 el1 = Inr (w', el')"
      by (auto simp: bind_eq_Inr)
    from WritePropertyElement_extends[OF p] Cons.IH[OF r] show ?thesis by (rule extends_trans)
  qed
qed

lemma WriteCladeContent_Inr:
  assumes "WriteCladeContent input vertex w el = Inr (w', el')"
  shows "\<exists>w1 e1 w2 e2 w3 e3 w4 e4.
           WriteBranchLengthAttribute input vertex w el = Inr (w1, e1)
         \<and> WriteNameElement vertex w1 e1 = Inr (w2, e2)
         \<and> WriteConfidenceElement input vertex w2 e2 = Inr (w3, e3)
         \<and> WriteColorElement input vertex w3 e3 = Inr (w4, e4)
         \<and> WriteCladeProperties (GetVertexData input) vertex w4 e4 = Inr (w', el')"
  using assms unfolding WriteCladeContent_def by (auto simp: bind_eq_Inr)

lemma WriteCladeContent_extends:
  assumes "WriteCladeContent input vertex w el = Inr (w', el')"
  shows "extends el el'"
proof -
  from WriteCladeContent_Inr[OF assms] obtain w1 e1 w2 e2 w3 e3 w4 e4 where
    a: "WriteBranchLengthAttribute input vertex w el = Inr (w1, e1)"
    and b: "WriteNameElement vertex w1 e1 = Inr (w2, e2)"
    and c: "WriteConfidenceElement input vertex w2 e2 = Inr (w3, e3)"
    and d: "WriteColorElement input vertex w3 e3 = Inr (w4, e4)"
    and e: "WriteCladeProperties (GetVertexData input) vertex w4 e4 = Inr (w', el')"
    by blast
  note WriteBranchLengthAttribute_extends[OF a]
  also note WriteNameElement_extends[OF b]
  also note WriteConfidenceElement_extends[OF c]
  also note WriteColorElement_extends[OF d]
  also note WriteCladeProperties_extends[OF e]
  finally show ?thesis .
qed

section \<open>Recorded calls across the writes of a clade\<close>

lemma calls_avoid_refl [simp]: "calls_avoid N w w"
  by (simp add: calls_avoid_def)

lemma calls_avoid_trans [trans]:
  "calls_avoid N w w1 \<Longrightarrow> calls_avoid N w1 w2 \<Longrightarrow> calls_avoid N w w2"
  unfolding calls_avoid_def by (auto dest: same_config_trans)

lemma calls_avoid_mono: "calls_avoid M w w' \<Longrightarrow> N \<subseteq> M \<Longrightarrow> calls_avoid N w w'"
  unfolding calls_avoid_def by fastforce

lemma calls_avoid_blacklist: "calls_avoid N w w' \<Longrightarrow> set (Blacklist w) \<subseteq> set (Blacklist w')"
  unfolding calls_avoid_def by auto

lemma calls_avoid_same_config: "calls_avoid N w w' \<Longrightarrow> same_config w w'"
  unfolding calls_avoid_def by simp

lemma grows_calls_avoid: "grows M w w' \<Longrightarrow> calls_avoid N w w'"
  unfolding grows_def calls_avoid_def by auto

lemma grows_same_config: "grows M w w' \<Longrightarrow> same_config w w'"
  unfolding grows_def by simp

lemma fixed_names_same_config: "same_config w w' \<Longrightarrow> fixed_names input w' = fixed_names input w"
  by (simp add: fixed_names_def same_config_def branch_length_names_def node_name_names_def)

lemma WritePropertyElement_calls_avoid:
  assumes "WritePropertyElement array vertex w el = Inr (w', el')" and "Name array \<notin> N"
  shows "calls_avoid N w w'"
  using WritePropertyElement_Inr[OF assms(1)] assms(2)
  by (auto simp: calls_avoid_def same_config_def IgnoreArray_def)

lemma WritePropertyElement_blacklist:
  assumes "WritePropertyElement array vertex w el = Inr (w', el')"
  shows "Blacklist w' = (if vertex = -1 then Blacklist w @ [Name array] else Blacklist w)"
  using WritePropertyElement_Inr[OF assms] by (auto simp: IgnoreArray_def)

lemma WriteCladeProperties_Cons_Inr:
  assumes "WriteCladeProperties (a # arrays) vertex w el = Inr (w', el')"
  shows "(Name a \<in> set (Blacklist w) \<or> same_array a (NodeNameArray w) \<or> same_array a (EdgeWeightArray w))
           \<and> WriteCladeProperties arrays vertex w el = Inr (w', el')
         \<or> Name a \<notin> set (Blacklist w)
           \<and> (\<exists>w1 el1. WritePropertyElement a vertex w el = Inr (w1, el1)
                 \<and> WriteCladeProperties arrays vertex w1 el1 = Inr (w', el'))"
proof (cases "same_array a (NodeNameArray w) \<or> same_array a (EdgeWeightArray w)")
  case True
  with assms show ?thesis by simp
next
  case False
  show ?thesis
  proof (cases "LookupValue (Blacklist w) (Name a) = -1")
    case True
    with False assms show ?thesis by (auto simp: bind_eq_Inr LookupValue_iff)
  next
    case False
    with assms show ?thesis by (cases "same_array a (NodeNameArray w) \<or> same_array a (EdgeWeightArray w)")
      (simp_all add: LookupValue_iff)
  qed
qed

lemma WriteCladeProperties_calls_avoid:
  "WriteCladeProperties arrays vertex w el = Inr (w', el') \<Longrightarrow>
     calls_avoid (set (Blacklist w)) w w' \<and> (vertex \<noteq> -1 \<longrightarrow> Blacklist w' = Blacklist w)"
proof (induction arrays arbitrary: w el)
  case Nil
  then show ?case by simp
next
  case (Cons a arrays)
  from WriteCladeProperties_Cons_Inr[OF Cons.prems] consider
    (skip) "WriteCladeProperties arrays vertex w el = Inr (w', el')"
  | (emit) w1 el1 where "Name a \<notin> set (Blacklist w)"
      "WritePropertyElement a vertex w el = Inr (w1, el1)"
      "WriteCladeProperties arrays vertex w1 el1 = Inr (w', el')"
    by blast
  then show ?case
  proof cases
    case skip
    then show ?thesis by (rule Cons.IH)
  next
    case (emit w1 el1)
    note n = emit(1) and p = emit(2) and r = emit(3)
    have 1: "calls_avoid (set (Blacklist w)) w w1"
      using WritePropertyElement_calls_avoid[OF p n] .
    have sub: "set (Blacklist w) \<subseteq> set (Blacklist w1)"
      using 1 by (rule calls_avoid_blacklist)
    from Cons.IH[OF r] have 2: "calls_avoid (set (Blacklist w1)) w1 w'"
      and 3: "vertex \<noteq> -1 \<longrightarrow> Blacklist w' = Blacklist w1" by simp_all
    from 2 sub have "calls_avoid (set (Blacklist w)) w1 w'" by (rule calls_avoid_mono)
    with 1 have "calls_avoid (set (Blacklist w)) w w'" by (rule calls_avoid_trans)
    moreover have "vertex \<noteq> -1 \<longrightarrow> Blacklist w' = Blacklist w"
      using 3 WritePropertyElement_blacklist[OF p] by simp
    ultimately show ?thesis by simp
  qed
qed

lemma WriteCladeContent_state:
  assumes "WriteCladeContent input vertex w el = Inr (w', el')"
  shows "calls_avoid (set (Blacklist w) \<union> fixed_names input w) w w'"
    and "fixed_names input w \<subseteq> set (Blacklist w')"
    and "vertex \<noteq> -1 \<Longrightarrow> set (Blacklist w') = set (Blacklist w) \<union> fixed_names input w"
proof -
  from WriteCladeContent_Inr[OF assms] obtain w1 e1 w2 e2 w3 e3 w4 e4 where
    a: "WriteBranchLengthAttribute input vertex w el = Inr (w1, e1)"
    and b: "WriteNameElement vertex w1 e1 = Inr (w2, e2)"
    and c: "WriteConfidenceElement input vertex w2 e2 = Inr (w3, e3)"
    and d: "WriteColorElement input vertex w3 e3 = Inr (w4, e4)"
    and e: "WriteCladeProperties (GetVertexData input) vertex w4 e4 = Inr (w', el')"
    by blast
  have g1: "grows (branch_length_names w) w w1" using WriteBranchLengthAttribute_grows[OF a] .
  have g2: "grows (node_name_names w1) w1 w2" using WriteNameElement_grows[OF b] .
  have g3: "grows (confidence_names input) w2 w3" using WriteConfidenceElement_grows[OF c] .
  have g4: "grows (color_names input) w3 w4" using WriteColorElement_grows[OF d] .
  have "node_name_names w1 = node_name_names w"
    using grows_same_config[OF g1] by (simp add: node_name_names_def same_config_def)
  with g1 g2 g3 g4 have g: "grows (fixed_names input w) w w4"
    unfolding fixed_names_def by (metis grows_trans)
  have s4: "set (Blacklist w4) = set (Blacklist w) \<union> fixed_names input w"
    using g by (rule grows_set)
  from WriteCladeProperties_calls_avoid[OF e] have
    ca: "calls_avoid (set (Blacklist w4)) w4 w'"
    and eq: "vertex \<noteq> -1 \<longrightarrow> Blacklist w' = Blacklist w4" by simp_all
  have "calls_avoid (set (Blacklist w) \<union> fixed_names input w) w w4"
    using g by (rule grows_calls_avoid)
  also have "calls_avoid (set (Blacklist w) \<union> fixed_names input w) w4 w'"
    using ca s4 by simp
  finally show "calls_avoid (set (Blacklist w) \<union> fixed_names input w) w w'" .
  show "fixed_names input w \<subseteq> set (Blacklist w')"
    using calls_avoid_blacklist[OF ca] s4 by auto
  show "vertex \<noteq> -1 \<Longrightarrow> set (Blacklist w') = set (Blacklist w) \<union> fixed_names input w"
    using eq s4 by simp
qed

section \<open>Recorded calls across the recursion over the vertices\<close>

lemma WriteCladeElement_Suc_Inr:
  assumes "WriteCladeElement (Suc fuel) input vertex w parentElement = Inr (w', el')"
  shows "\<exists>w1 c1 c2. WriteCladeContent input vertex w (NewElement ''clade'') = Inr (w1, c1)
           \<and> WriteChildClades fuel input (GetChildren input vertex) w1 c1 = Inr (w', c2)
           \<and> el' = AddNestedElement parentElement c2"
  using assms by (auto simp: bind_eq_Inr)

lemma WriteChildClades_Cons_Inr:
  assumes "WriteChildClades fuel input (child # rest) w cladeElement = Inr (w', el')"
  shows "\<exists>w1 c1. WriteCladeElement fuel input child w cladeElement = Inr (w1, c1)
           \<and> WriteChildClades fuel input rest w1 c1 = Inr (w', el')"
  using assms by (auto simp: bind_eq_Inr)

lemma calls_avoid_step:
  assumes 1: "calls_avoid (set (Blacklist w) \<union> fixed_names input w) w w1"
    and 2: "calls_avoid (set (Blacklist w1) \<union> fixed_names input w1) w1 w2"
  shows "calls_avoid (set (Blacklist w) \<union> fixed_names input w) w w2"
proof -
  have "fixed_names input w1 = fixed_names input w"
    using calls_avoid_same_config[OF 1] by (rule fixed_names_same_config)
  moreover have "set (Blacklist w) \<subseteq> set (Blacklist w1)"
    using 1 by (rule calls_avoid_blacklist)
  ultimately have "set (Blacklist w) \<union> fixed_names input w
                     \<subseteq> set (Blacklist w1) \<union> fixed_names input w1" by auto
  with 2 have "calls_avoid (set (Blacklist w) \<union> fixed_names input w) w1 w2"
    by (rule calls_avoid_mono)
  with 1 show ?thesis by (rule calls_avoid_trans)
qed

lemma clade_calls_avoid:
  "WriteCladeElement fuel input vertex w parentElement = Inr (w', el') \<Longrightarrow>
     calls_avoid (set (Blacklist w) \<union> fixed_names input w) w w'
     \<and> fixed_names input w \<subseteq> set (Blacklist w')"
  and child_clades_calls_avoid:
  "WriteChildClades fuel input children w cladeElement = Inr (w', el') \<Longrightarrow>
     calls_avoid (set (Blacklist w) \<union> fixed_names input w) w w'"
proof (induction fuel input vertex w parentElement and fuel input children w cladeElement
       arbitrary: w' el' and w' el' rule: WriteCladeElement_WriteChildClades.induct)
  case (1 input vertex w parentElement)
  then show ?case by simp
next
  case (2 fuel input vertex w parentElement)
  from WriteCladeElement_Suc_Inr[OF "2.prems"] obtain w1 c1 c2 where
    c: "WriteCladeContent input vertex w (NewElement ''clade'') = Inr (w1, c1)"
    and ch: "WriteChildClades fuel input (GetChildren input vertex) w1 c1 = Inr (w', c2)"
    by blast
  note a = WriteCladeContent_state(1)[OF c] and f = WriteCladeContent_state(2)[OF c]
  have b: "calls_avoid (set (Blacklist w1) \<union> fixed_names input w1) w1 w'"
    using "2.IH"[OF ch] .
  have "calls_avoid (set (Blacklist w) \<union> fixed_names input w) w w'"
    using a b by (rule calls_avoid_step)
  moreover have "fixed_names input w \<subseteq> set (Blacklist w')"
    using f calls_avoid_blacklist[OF b] by auto
  ultimately show ?case by simp
next
  case (3 fuel input w cladeElement)
  then show ?case by simp
next
  case (4 fuel input child rest w cladeElement)
  from WriteChildClades_Cons_Inr[OF "4.prems"] obtain w1 c1 where
    c: "WriteCladeElement fuel input child w cladeElement = Inr (w1, c1)"
    and r: "WriteChildClades fuel input rest w1 c1 = Inr (w', el')"
    by blast
  have a: "calls_avoid (set (Blacklist w) \<union> fixed_names input w) w w1"
    using "4.IH"(1)[OF c] by simp
  have b: "calls_avoid (set (Blacklist w1) \<union> fixed_names input w1) w1 w'"
    using "4.IH"(2)[OF r] .
  show ?case using a b by (rule calls_avoid_step)
qed

section \<open>The state of the writer across a write\<close>

lemma WriteTreeLevelElement_state:
  assumes "WriteTreeLevelElement input elementName attributeName w el = Inr (w', el')"
  shows "same_config w w' \<and> PropertyCalls w' = PropertyCalls w
         \<and> Blacklist w' = Blacklist w @ tree_level_element_names input elementName"
  using assms unfolding WriteTreeLevelElement_def tree_level_element_names_def Let_def
  by (auto simp: bind_eq_Inr IgnoreArray_def same_config_def split: option.splits)

lemma WriteTreeLevelProperties_loop_state:
  "WriteTreeLevelProperties_loop arrays w el = Inr (w', el') \<Longrightarrow>
     same_config w w'
     \<and> Blacklist w' = Blacklist w
          @ map Name (filter (\<lambda>a. compare_prefix (Name a) ''phylogeny.property.'') arrays)
     \<and> PropertyCalls w' = PropertyCalls w
          @ map (\<lambda>a. (a, -1)) (filter (\<lambda>a. compare_prefix (Name a) ''phylogeny.property.'') arrays)"
proof (induction arrays arbitrary: w el)
  case Nil
  then show ?case by simp
next
  case (Cons a arrays)
  show ?case
  proof (cases "compare_prefix (Name a) ''phylogeny.property.''")
    case True
    with Cons.prems obtain w1 el1 where
      p: "WritePropertyElement a (-1) w el = Inr (w1, el1)"
      and r: "WriteTreeLevelProperties_loop arrays w1 el1 = Inr (w', el')"
      by (auto simp: bind_eq_Inr)
    from WritePropertyElement_Inr[OF p] have
      w1: "w1 = (IgnoreArray w (Name a))\<lparr>PropertyCalls := PropertyCalls w @ [(a, -1)]\<rparr>"
      by auto
    have "same_config w w1" "Blacklist w1 = Blacklist w @ [Name a]"
      "PropertyCalls w1 = PropertyCalls w @ [(a, -1)]"
      using w1 by (simp_all add: same_config_def IgnoreArray_def)
    with Cons.IH[OF r] True show ?thesis by (auto dest: same_config_trans)
  next
    case False
    with Cons.prems have "WriteTreeLevelProperties_loop arrays w el = Inr (w', el')" by simp
    from Cons.IH[OF this] False show ?thesis by simp
  qed
qed

lemma WriteData_rootElement_Inr:
  assumes "WriteData_rootElement fuel input w = Inr (w', doc)"
  shows "\<exists>w1 e1 w2 e2 w3 e3 w4 e4.
           WriteTreeLevelElement input ''name'' []
             w (SetAttribute (NewElement ''phylogeny'') ''rooted'' (Str ''true'')) = Inr (w1, e1)
         \<and> WriteTreeLevelElement input ''description'' [] w1 e1 = Inr (w2, e2)
         \<and> WriteTreeLevelElement input ''confidence'' ''type'' w2 e2 = Inr (w3, e3)
         \<and> WriteTreeLevelProperties input w3 e3 = Inr (w4, e4)
         \<and> WriteCladeElement fuel input (GetRoot input) w4 e4 = Inr (w', doc)"
  using assms unfolding WriteData_rootElement_def Let_def by (auto simp: bind_eq_Inr)

lemma WriteData_rootElement_tree_level:
  assumes "WriteData_rootElement fuel input w = Inr (w', doc)"
  shows "\<exists>w4 e4. same_config w w4
           \<and> Blacklist w4 = Blacklist w @ tree_level_names input
           \<and> PropertyCalls w4 = PropertyCalls w @ map (\<lambda>a. (a, -1)) (tree_level_properties input)
           \<and> WriteCladeElement fuel input (GetRoot input) w4 e4 = Inr (w', doc)"
proof -
  from WriteData_rootElement_Inr[OF assms] obtain w1 e1 w2 e2 w3 e3 w4 e4 where
    a: "WriteTreeLevelElement input ''name'' []
             w (SetAttribute (NewElement ''phylogeny'') ''rooted'' (Str ''true'')) = Inr (w1, e1)"
    and b: "WriteTreeLevelElement input ''description'' [] w1 e1 = Inr (w2, e2)"
    and c: "WriteTreeLevelElement input ''confidence'' ''type'' w2 e2 = Inr (w3, e3)"
    and d: "WriteTreeLevelProperties input w3 e3 = Inr (w4, e4)"
    and e: "WriteCladeElement fuel input (GetRoot input) w4 e4 = Inr (w', doc)"
    by blast
  note sa = WriteTreeLevelElement_state[OF a] and sb = WriteTreeLevelElement_state[OF b]
    and sc = WriteTreeLevelElement_state[OF c]
    and sd = WriteTreeLevelProperties_loop_state[OF d[unfolded WriteTreeLevelProperties_def]]
  have "same_config w w4" using sa sb sc sd by (simp add: same_config_def)
  moreover have "Blacklist w4 = Blacklist w @ tree_level_names input"
    using sa sb sc sd by (simp add: tree_level_names_def tree_level_properties_def)
  moreover have "PropertyCalls w4
      = PropertyCalls w @ map (\<lambda>a. (a, -1)) (tree_level_properties input)"
    using sa sb sc sd by (simp add: tree_level_properties_def)
  ultimately show ?thesis using e by blast
qed

lemma WriteData_rootElement_state:
  assumes "WriteData_rootElement fuel input w = Inr (w', doc)"
  shows "same_config w w'"
    and "\<exists>added. Blacklist w' = Blacklist w @ tree_level_names input @ added"
    and "\<exists>clade_calls.
           PropertyCalls w' = PropertyCalls w
             @ map (\<lambda>a. (a, -1)) (tree_level_properties input) @ clade_calls
           \<and> (\<forall>(a, u) \<in> set clade_calls.
                Name a \<notin> set (Blacklist w) \<union> set (tree_level_names input) \<union> fixed_names input w)"
    and "fixed_names input w \<subseteq> set (Blacklist w')"
proof -
  from WriteData_rootElement_tree_level[OF assms] obtain w4 e4 where
    sc: "same_config w w4"
    and bl: "Blacklist w4 = Blacklist w @ tree_level_names input"
    and pc: "PropertyCalls w4 = PropertyCalls w @ map (\<lambda>a. (a, -1)) (tree_level_properties input)"
    and e: "WriteCladeElement fuel input (GetRoot input) w4 e4 = Inr (w', doc)"
    by blast
  have fx: "fixed_names input w4 = fixed_names input w"
    using sc by (rule fixed_names_same_config)
  from clade_calls_avoid[OF e] have
    ca: "calls_avoid (set (Blacklist w4) \<union> fixed_names input w4) w4 w'"
    and f: "fixed_names input w4 \<subseteq> set (Blacklist w')" by simp_all
  show "same_config w w'"
    using sc calls_avoid_same_config[OF ca] by (rule same_config_trans)
  show "\<exists>added. Blacklist w' = Blacklist w @ tree_level_names input @ added"
    using ca bl unfolding calls_avoid_def by auto
  show "\<exists>clade_calls.
           PropertyCalls w' = PropertyCalls w
             @ map (\<lambda>a. (a, -1)) (tree_level_properties input) @ clade_calls
           \<and> (\<forall>(a, u) \<in> set clade_calls.
                Name a \<notin> set (Blacklist w) \<union> set (tree_level_names input) \<union> fixed_names input w)"
    using ca bl pc fx unfolding calls_avoid_def by auto
  show "fixed_names input w \<subseteq> set (Blacklist w')" using f fx by simp
qed

lemma StartFile_state:
  "StartFile w = (r, w') \<Longrightarrow>
     Blacklist w' = Blacklist w \<and> PropertyCalls w' = PropertyCalls w
     \<and> EdgeWeightArray w' = EdgeWeightArray w \<and> NodeNameArray w' = NodeNameArray w
     \<and> EdgeWeightArrayName w' = EdgeWeightArrayName w \<and> NodeNameArrayName w' = NodeNameArrayName w"
  unfolding StartFile_def Let_def by (auto split: if_splits)

lemma EndFile_state:
  "EndFile w = (r, w') \<Longrightarrow>
     Blacklist w' = Blacklist w \<and> PropertyCalls w' = PropertyCalls w
     \<and> EdgeWeightArray w' = EdgeWeightArray w \<and> NodeNameArray w' = NodeNameArray w
     \<and> EdgeWeightArrayName w' = EdgeWeightArrayName w \<and> NodeNameArrayName w' = NodeNameArrayName w"
  unfolding EndFile_def Let_def by (auto split: if_splits)

lemma WriteData_Inr:
  assumes "WriteData fuel PrintXML input w = Inr (r, w')"
  shows "(r = 0 \<and> StartFile (with_arrays input w) = (0, w'))
       \<or> (r = 1 \<and> (\<exists>s w1 w2 doc. s \<noteq> 0 \<and> StartFile (with_arrays input w) = (s, w1)
              \<and> WriteData_rootElement fuel input w1 = Inr (w2, doc)
              \<and> w' = snd (EndFile (w2\<lparr>Stream := os_put (Stream w2) (PrintXML doc)\<rparr>))))"
proof -
  obtain s w1 where s: "StartFile (with_arrays input w) = (s, w1)"
    by (cases "StartFile (with_arrays input w)") auto
  show ?thesis
  proof (cases "s = 0")
    case True
    with assms s show ?thesis
      unfolding WriteData_def with_arrays_def Let_def by simp
  next
    case False
    with assms s obtain w2 doc where
      "WriteData_rootElement fuel input w1 = Inr (w2, doc)"
      "w' = snd (EndFile (w2\<lparr>Stream := os_put (Stream w2) (PrintXML doc)\<rparr>))" "r = 1"
      unfolding WriteData_def with_arrays_def Let_def
      by (auto simp: bind_eq_Inr case_prod_beta)
    with s False show ?thesis by blast
  qed
qed

section \<open>Arrays written by a fixed rule\<close>

lemma GetAbstractArray_Some: "GetAbstractArray arrays n = Some c \<Longrightarrow> Name c = n \<and> c \<in> set arrays"
  unfolding GetAbstractArray_def by (auto simp: find_Some_iff)

lemma GetAbstractArray_member: "c \<in> set arrays \<Longrightarrow> GetAbstractArray arrays (Name c) \<noteq> None"
  unfolding GetAbstractArray_def by (auto simp: find_None_iff)

lemma WriteData_complete_state:
  assumes "WriteData fuel PrintXML input w = Inr (1, w')"
  shows "\<exists>added. Blacklist w' = Blacklist w @ tree_level_names input @ added"
    and "fixed_names input (with_arrays input w) \<subseteq> set (Blacklist w')"
    and "\<exists>clade_calls.
           PropertyCalls w' = PropertyCalls w
             @ map (\<lambda>a. (a, -1)) (tree_level_properties input) @ clade_calls
           \<and> (\<forall>(a, u) \<in> set clade_calls.
                Name a \<notin> set (Blacklist w) \<union> set (tree_level_names input)
                           \<union> fixed_names input (with_arrays input w))"
proof -
  from WriteData_Inr[OF assms] obtain s w1 w2 doc where
    s: "StartFile (with_arrays input w) = (s, w1)"
    and d: "WriteData_rootElement fuel input w1 = Inr (w2, doc)"
    and w': "w' = snd (EndFile (w2\<lparr>Stream := os_put (Stream w2) (PrintXML doc)\<rparr>))"
    by auto
  note s1 = StartFile_state[OF s]
  have bl1: "Blacklist w1 = Blacklist w" and pc1: "PropertyCalls w1 = PropertyCalls w"
    using s1 by (simp_all add: with_arrays_def)
  have fx: "fixed_names input w1 = fixed_names input (with_arrays input w)"
    using s1 by (simp add: fixed_names_def branch_length_names_def node_name_names_def)
  obtain r2 w3 where ef: "EndFile (w2\<lparr>Stream := os_put (Stream w2) (PrintXML doc)\<rparr>) = (r2, w3)"
    by (rule prod.exhaust)
  have "w' = w3" using w' ef by simp
  then have e: "Blacklist w' = Blacklist w2 \<and> PropertyCalls w' = PropertyCalls w2"
    using EndFile_state[OF ef] by simp
  show "\<exists>added. Blacklist w' = Blacklist w @ tree_level_names input @ added"
    using WriteData_rootElement_state(2)[OF d] e bl1 by simp
  show "fixed_names input (with_arrays input w) \<subseteq> set (Blacklist w')"
    using WriteData_rootElement_state(4)[OF d] e fx by simp
  show "\<exists>clade_calls.
           PropertyCalls w' = PropertyCalls w
             @ map (\<lambda>a. (a, -1)) (tree_level_properties input) @ clade_calls
           \<and> (\<forall>(a, u) \<in> set clade_calls.
                Name a \<notin> set (Blacklist w) \<union> set (tree_level_names input)
                           \<union> fixed_names input (with_arrays input w))"
    using WriteData_rootElement_state(3)[OF d] e bl1 pc1 fx by simp
qed

lemma fixed_category_names:
  assumes "fixed_category input w c"
  shows "Name c \<in> set (tree_level_names input) \<union> fixed_names input (with_arrays input w)"
proof -
  from assms consider
    (ew) "GetAbstractArray (GetEdgeData input) (EdgeWeightArrayName w) = Some c"
  | (nn) "GetAbstractArray (GetVertexData input) (NodeNameArrayName w) = Some c"
  | (conf) "c \<in> set (GetVertexData input)" "Name c = ''confidence''"
  | (col) "c \<in> set (GetVertexData input)" "Name c = ''color''"
      "vtkArrayDownCast_UnsignedChar (GetAbstractArray (GetVertexData input) ''color'') \<noteq> None"
  | (tl) "c \<in> set (GetVertexData input)"
      "Name c \<in> {''phylogeny.name'', ''phylogeny.description'', ''phylogeny.confidence''}"
  | (tp) "c \<in> set (GetVertexData input)" "compare_prefix (Name c) ''phylogeny.property.''"
    unfolding fixed_category_def by blast
  then show ?thesis
  proof cases
    case ew
    then show ?thesis
      by (simp add: fixed_names_def branch_length_names_def with_arrays_def)
  next
    case nn
    then show ?thesis
      by (simp add: fixed_names_def node_name_names_def with_arrays_def)
  next
    case conf
    with GetAbstractArray_member[OF conf(1)] show ?thesis
      by (auto simp: fixed_names_def confidence_names_def)
  next
    case col
    then show ?thesis by (auto simp: fixed_names_def color_names_def)
  next
    case tl
    with GetAbstractArray_member[OF tl(1)] show ?thesis
      by (auto simp: tree_level_names_def tree_level_element_names_def)
  next
    case tp
    then show ?thesis by (simp add: tree_level_names_def tree_level_properties_def)
  qed
qed

text \<open>
  Claim C2, as the code has it. After a write that returned \<open>1\<close>, the name of every
  array that the writer treats by a fixed rule (the edge weight array, the node name
  array, a vertex array named \<open>confidence\<close>, a vertex array named \<open>color\<close> when the
  array found under that name is a vtkUnsignedCharArray, a vertex array named
  \<open>phylogeny.name\<close>, \<open>phylogeny.description\<close> or \<open>phylogeny.confidence\<close>, a vertex array
  whose name starts with \<open>phylogeny.property.\<close>) is in the blacklist, and the calls of
  \<^verbatim>\<open>WritePropertyElement\<close> made by the write are the tree-level ones followed by the
  calls made for clades, none of which is on an array of that name.
\<close>

theorem fixed_categories_not_clade_properties:
  assumes "WriteData fuel PrintXML input w = Inr (1, w')" and "fixed_category input w c"
  shows "Name c \<in> set (Blacklist w')
       \<and> (\<exists>clade_calls.
            PropertyCalls w' = PropertyCalls w
              @ map (\<lambda>a. (a, -1)) (tree_level_properties input) @ clade_calls
            \<and> (\<forall>(a, u) \<in> set clade_calls. Name a \<noteq> Name c))"
proof -
  note n = fixed_category_names[OF assms(2)]
  from WriteData_complete_state(1)[OF assms(1)] WriteData_complete_state(2)[OF assms(1)] n
  have "Name c \<in> set (Blacklist w')" by auto
  moreover from WriteData_complete_state(3)[OF assms(1)] n
  have "\<exists>clade_calls.
            PropertyCalls w' = PropertyCalls w
              @ map (\<lambda>a. (a, -1)) (tree_level_properties input) @ clade_calls
            \<and> (\<forall>(a, u) \<in> set clade_calls. Name a \<noteq> Name c)"
    by fastforce
  ultimately show ?thesis by simp
qed

text \<open>
  Claim C9. When the edge weight name finds an edge array and a vertex array has the
  same name, then after a write that returned \<open>1\<close> the name is in the blacklist and no
  call of \<^verbatim>\<open>WritePropertyElement\<close> made for a clade is on that vertex array; and every
  call of \<^verbatim>\<open>WriteBranchLengthAttribute\<close> with that edge array leaves its name in the
  blacklist, which is the first step of every clade.
\<close>

theorem edge_weight_name_blocks_vertex_array:
  assumes "WriteData fuel PrintXML input w = Inr (1, w')"
    and "GetAbstractArray (GetEdgeData input) (EdgeWeightArrayName w) = Some e"
    and "c \<in> set (GetVertexData input)" and "Name c = Name e"
  shows "Name e \<in> set (Blacklist w')
       \<and> (\<exists>clade_calls.
            PropertyCalls w' = PropertyCalls w
              @ map (\<lambda>a. (a, -1)) (tree_level_properties input) @ clade_calls
            \<and> (\<forall>(a, u) \<in> set clade_calls. a \<noteq> c))
       \<and> (\<forall>vertex w0 el w1 el1. EdgeWeightArray w0 = Some e
            \<longrightarrow> WriteBranchLengthAttribute input vertex w0 el = Inr (w1, el1)
            \<longrightarrow> Name e \<in> set (Blacklist w1))"
proof -
  have n: "Name e \<in> fixed_names input (with_arrays input w)"
    using assms(2) by (simp add: fixed_names_def branch_length_names_def with_arrays_def)
  from WriteData_complete_state(2)[OF assms(1)] n have 1: "Name e \<in> set (Blacklist w')" by auto
  from WriteData_complete_state(3)[OF assms(1)] n assms(4)
  have 2: "\<exists>clade_calls.
            PropertyCalls w' = PropertyCalls w
              @ map (\<lambda>a. (a, -1)) (tree_level_properties input) @ clade_calls
            \<and> (\<forall>(a, u) \<in> set clade_calls. a \<noteq> c)"
    by fastforce
  have 3: "\<forall>vertex w0 el w1 el1. EdgeWeightArray w0 = Some e
            \<longrightarrow> WriteBranchLengthAttribute input vertex w0 el = Inr (w1, el1)
            \<longrightarrow> Name e \<in> set (Blacklist w1)"
    using WriteBranchLengthAttribute_grows
    by (fastforce simp: grows_def branch_length_names_def)
  from 1 2 3 show ?thesis by simp
qed

text \<open>
  Claim C6, as the code has it. The blacklist is empty when the writer is constructed.
  A write does not empty it: it starts from the blacklist that the writer holds,
  appends to it (first the tree-level names, when the file could be started), and
  leaves the result in the writer.
\<close>

theorem blacklist_kept_by_writer:
  "Blacklist (New os) = []
   \<and> (WriteData fuel PrintXML input w = Inr (r, w') \<longrightarrow>
        (\<exists>added. Blacklist w' = Blacklist w @ added)
        \<and> (r = 1 \<longrightarrow> (\<exists>added. Blacklist w' = Blacklist w @ tree_level_names input @ added)))"
proof -
  have "\<exists>added. Blacklist w' = Blacklist w @ added"
    if h: "WriteData fuel PrintXML input w = Inr (r, w')"
  proof -
    from WriteData_Inr[OF h] consider "r = 0" "StartFile (with_arrays input w) = (0, w')" | "r = 1"
      by blast
    then show ?thesis
    proof cases
      case 1
      then show ?thesis using StartFile_state[OF 1(2)] by (simp add: with_arrays_def)
    next
      case 2
      with h WriteData_complete_state(1)[of fuel PrintXML input w w'] show ?thesis by auto
    qed
  qed
  moreover have "\<exists>added. Blacklist w' = Blacklist w @ tree_level_names input @ added"
    if "WriteData fuel PrintXML input w = Inr (r, w')" "r = 1"
    using that WriteData_complete_state(1)[of fuel PrintXML input w w'] by simp
  ultimately show ?thesis by (simp add: New_def)
qed

section \<open>Writes that do not read the blacklist\<close>

lemma same_arrays_refl [simp]: "same_arrays w w"
  by (simp add: same_arrays_def)

lemma same_arrays_sym: "same_arrays w wa \<Longrightarrow> same_arrays wa w"
  by (simp add: same_arrays_def)

lemma same_arrays_trans: "same_arrays w w1 \<Longrightarrow> same_arrays w1 w2 \<Longrightarrow> same_arrays w w2"
  by (simp add: same_arrays_def)

lemma same_config_arrays: "same_config w w' \<Longrightarrow> same_arrays w w'"
  by (simp add: same_config_def same_arrays_def)

lemma fixed_names_same_arrays: "same_arrays w wa \<Longrightarrow> fixed_names input wa = fixed_names input w"
  by (simp add: fixed_names_def same_arrays_def branch_length_names_def node_name_names_def)

lemma WriteBranchLengthAttribute_cong:
  assumes "WriteBranchLengthAttribute input vertex w el = Inr (w', el')" and "same_arrays w wa"
  shows "\<exists>wa'. WriteBranchLengthAttribute input vertex wa el = Inr (wa', el')"
  using assms unfolding WriteBranchLengthAttribute_def same_arrays_def
  by (cases "EdgeWeightArray w") (auto simp: bind_eq_Inr)

lemma WriteNameElement_cong:
  assumes "WriteNameElement vertex w el = Inr (w', el')" and "same_arrays w wa"
  shows "\<exists>wa'. WriteNameElement vertex wa el = Inr (wa', el')"
  using assms unfolding WriteNameElement_def same_arrays_def Let_def
  by (cases "NodeNameArray w") (auto simp: bind_eq_Inr)

lemma WriteConfidenceElement_cong:
  assumes "WriteConfidenceElement input vertex w el = Inr (w', el')"
  shows "\<exists>wa'. WriteConfidenceElement input vertex wa el = Inr (wa', el')"
  using assms unfolding WriteConfidenceElement_def Let_def
  by (cases "GetAbstractArray (GetVertexData input) ''confidence''") (auto simp: bind_eq_Inr)

lemma WriteColorElement_cong:
  assumes "WriteColorElement input vertex w el = Inr (w', el')"
  shows "\<exists>wa'. WriteColorElement input vertex wa el = Inr (wa', el')"
  using assms unfolding WriteColorElement_def Let_def
  by (cases "vtkArrayDownCast_UnsignedChar (GetAbstractArray (GetVertexData input) ''color'')")
     (auto simp: bind_eq_Inr)

lemma WritePropertyElement_cong:
  assumes "WritePropertyElement array vertex w el = Inr (w', el')"
  shows "\<exists>wa'. WritePropertyElement array vertex wa el = Inr (wa', el')"
proof -
  from WritePropertyElement_Inr[OF assms] obtain authority appliesTo unit v where
    "scan_information (Information array) ([], [], []) = Inr (authority, appliesTo, unit)"
    "GetVariantValue array (if vertex = -1 then 0 else vertex) = Inr v"
    "el' = AddNestedElement el (PropertyElement authority appliesTo unit (Name array) v)"
    by blast
  then show ?thesis unfolding WritePropertyElement_def Let_def by simp
qed

section \<open>Writes from two states of the writer\<close>

lemma WritePropertyElement_same_config:
  assumes "WritePropertyElement array vertex w el = Inr (w', el')"
  shows "same_config w w'"
  using WritePropertyElement_Inr[OF assms] by (auto simp: same_config_def IgnoreArray_def)

lemma same_array_cong: "same_arrays w wa \<Longrightarrow>
   (same_array a (NodeNameArray wa) \<or> same_array a (EdgeWeightArray wa))
     = (same_array a (NodeNameArray w) \<or> same_array a (EdgeWeightArray w))"
  by (simp add: same_arrays_def)

lemma WriteCladeProperties_cong:
  "WriteCladeProperties arrays vertex w el = Inr (w', el') \<Longrightarrow> same_arrays w wa \<Longrightarrow>
   set (Blacklist w) = set (Blacklist wa) \<Longrightarrow>
     \<exists>wa'. WriteCladeProperties arrays vertex wa el = Inr (wa', el')
         \<and> same_arrays w' wa' \<and> set (Blacklist w') = set (Blacklist wa')"
proof (induction arrays arbitrary: w wa el)
  case Nil
  then show ?case by simp
next
  case (Cons a arrays)
  note sa = same_array_cong[OF Cons.prems(2), of a]
  have lv: "(LookupValue (Blacklist wa) (Name a) = -1) = (LookupValue (Blacklist w) (Name a) = -1)"
    using Cons.prems(3) by (simp add: LookupValue_iff)
  show ?case
  proof (cases "same_array a (NodeNameArray w) \<or> same_array a (EdgeWeightArray w)
                 \<or> LookupValue (Blacklist w) (Name a) \<noteq> -1")
    case True
    with Cons.prems(1) have r: "WriteCladeProperties arrays vertex w el = Inr (w', el')"
      by (cases "same_array a (NodeNameArray w) \<or> same_array a (EdgeWeightArray w)") simp_all
    from True sa lv have
      "WriteCladeProperties (a # arrays) vertex wa el = WriteCladeProperties arrays vertex wa el"
      by (cases "same_array a (NodeNameArray w) \<or> same_array a (EdgeWeightArray w)") simp_all
    with Cons.IH[OF r Cons.prems(2) Cons.prems(3)] show ?thesis by simp
  next
    case False
    with Cons.prems(1) obtain w1 el1 where
      p: "WritePropertyElement a vertex w el = Inr (w1, el1)"
      and r: "WriteCladeProperties arrays vertex w1 el1 = Inr (w', el')"
      by (auto simp: bind_eq_Inr)
    from WritePropertyElement_cong[OF p] obtain wa1 where
      pa: "WritePropertyElement a vertex wa el = Inr (wa1, el1)" by blast
    have s1: "same_arrays w1 wa1"
      using WritePropertyElement_same_config[OF p] WritePropertyElement_same_config[OF pa]
        Cons.prems(2)
      by (simp add: same_config_def same_arrays_def)
    have b1: "set (Blacklist w1) = set (Blacklist wa1)"
      using WritePropertyElement_blacklist[OF p] WritePropertyElement_blacklist[OF pa]
        Cons.prems(3) by simp
    from Cons.IH[OF r s1 b1] obtain wa' where
      "WriteCladeProperties arrays vertex wa1 el1 = Inr (wa', el')"
      "same_arrays w' wa'" "set (Blacklist w') = set (Blacklist wa')" by blast
    moreover from False sa lv pa have
      "WriteCladeProperties (a # arrays) vertex wa el = WriteCladeProperties arrays vertex wa1 el1"
      by simp
    ultimately show ?thesis by simp
  qed
qed

lemma WriteCladeContent_cong:
  assumes c: "WriteCladeContent input vertex w el = Inr (w', el')" and s: "similar input w wa"
  shows "\<exists>wa'. WriteCladeContent input vertex wa el = Inr (wa', el')
           \<and> same_arrays w' wa' \<and> set (Blacklist w') = set (Blacklist wa')"
proof -
  from s have sa: "same_arrays w wa"
    and eq: "set (Blacklist w) \<union> fixed_names input w = set (Blacklist wa) \<union> fixed_names input w"
    by (simp_all add: similar_def)
  from WriteCladeContent_Inr[OF c] obtain w1 e1 w2 e2 w3 e3 w4 e4 where
    a1: "WriteBranchLengthAttribute input vertex w el = Inr (w1, e1)"
    and a2: "WriteNameElement vertex w1 e1 = Inr (w2, e2)"
    and a3: "WriteConfidenceElement input vertex w2 e2 = Inr (w3, e3)"
    and a4: "WriteColorElement input vertex w3 e3 = Inr (w4, e4)"
    and a5: "WriteCladeProperties (GetVertexData input) vertex w4 e4 = Inr (w', el')"
    by blast
  note g1 = WriteBranchLengthAttribute_grows[OF a1] and g2 = WriteNameElement_grows[OF a2]
    and g3 = WriteConfidenceElement_grows[OF a3] and g4 = WriteColorElement_grows[OF a4]
  from WriteBranchLengthAttribute_cong[OF a1 sa] obtain wa1 where
    b1: "WriteBranchLengthAttribute input vertex wa el = Inr (wa1, e1)" by blast
  note h1 = WriteBranchLengthAttribute_grows[OF b1]
  have s1: "same_arrays w1 wa1"
    using sa grows_same_config[OF g1] grows_same_config[OF h1]
    by (simp add: same_arrays_def same_config_def)
  from WriteNameElement_cong[OF a2 s1] obtain wa2 where
    b2: "WriteNameElement vertex wa1 e1 = Inr (wa2, e2)" by blast
  note h2 = WriteNameElement_grows[OF b2]
  from WriteConfidenceElement_cong[OF a3] obtain wa3 where
    b3: "WriteConfidenceElement input vertex wa2 e2 = Inr (wa3, e3)" by blast
  note h3 = WriteConfidenceElement_grows[OF b3]
  from WriteColorElement_cong[OF a4] obtain wa4 where
    b4: "WriteColorElement input vertex wa3 e3 = Inr (wa4, e4)" by blast
  note h4 = WriteColorElement_grows[OF b4]
  have n1: "node_name_names w1 = node_name_names w"
    using grows_same_config[OF g1] by (simp add: node_name_names_def same_config_def)
  have n2: "node_name_names wa1 = node_name_names w" "branch_length_names wa = branch_length_names w"
    using grows_same_config[OF h1] sa
    by (simp_all add: node_name_names_def branch_length_names_def same_config_def same_arrays_def)
  have gw: "grows (fixed_names input w) w w4"
    using g1 g2 g3 g4 n1 unfolding fixed_names_def by (metis grows_trans)
  have gwa: "grows (fixed_names input w) wa wa4"
    using h1 h2 h3 h4 n2 unfolding fixed_names_def by (metis grows_trans)
  have s4: "same_arrays w4 wa4"
    using sa grows_same_config[OF gw] grows_same_config[OF gwa]
    by (simp add: same_arrays_def same_config_def)
  have b: "set (Blacklist w4) = set (Blacklist wa4)"
    using grows_set[OF gw] grows_set[OF gwa] eq by simp
  from WriteCladeProperties_cong[OF a5 s4 b] obtain wa' where
    b5: "WriteCladeProperties (GetVertexData input) vertex wa4 e4 = Inr (wa', el')"
    and r: "same_arrays w' wa'" "set (Blacklist w') = set (Blacklist wa')" by blast
  have "WriteCladeContent input vertex wa el = Inr (wa', el')"
    unfolding WriteCladeContent_def using b1 b2 b3 b4 b5 by simp
  with r show ?thesis by blast
qed

lemma similar_of_equal:
  "same_arrays w wa \<Longrightarrow> set (Blacklist w) = set (Blacklist wa) \<Longrightarrow> similar input w wa"
  by (simp add: similar_def)

lemma clade_cong:
  "WriteCladeElement fuel input vertex w parentElement = Inr (w', el') \<Longrightarrow> similar input w wa \<Longrightarrow>
     \<exists>wa'. WriteCladeElement fuel input vertex wa parentElement = Inr (wa', el')
         \<and> same_arrays w' wa' \<and> set (Blacklist w') = set (Blacklist wa')"
  and child_clades_cong:
  "WriteChildClades fuel input children w cladeElement = Inr (w', el') \<Longrightarrow>
   same_arrays w wa \<Longrightarrow> set (Blacklist w) = set (Blacklist wa) \<Longrightarrow>
     \<exists>wa'. WriteChildClades fuel input children wa cladeElement = Inr (wa', el')
         \<and> same_arrays w' wa' \<and> set (Blacklist w') = set (Blacklist wa')"
proof (induction fuel input vertex w parentElement and fuel input children w cladeElement
       arbitrary: w' el' wa and w' el' wa rule: WriteCladeElement_WriteChildClades.induct)
  case (1 input vertex w parentElement)
  then show ?case by simp
next
  case (2 fuel input vertex w parentElement)
  from WriteCladeElement_Suc_Inr[OF "2.prems"(1)] obtain w1 c1 c2 where
    c: "WriteCladeContent input vertex w (NewElement ''clade'') = Inr (w1, c1)"
    and ch: "WriteChildClades fuel input (GetChildren input vertex) w1 c1 = Inr (w', c2)"
    and e: "el' = AddNestedElement parentElement c2"
    by blast
  from WriteCladeContent_cong[OF c "2.prems"(2)] obtain wa1 where
    ca: "WriteCladeContent input vertex wa (NewElement ''clade'') = Inr (wa1, c1)"
    and s1: "same_arrays w1 wa1" and b1: "set (Blacklist w1) = set (Blacklist wa1)" by blast
  from "2.IH"[OF ch s1 b1] obtain wa' where
    cha: "WriteChildClades fuel input (GetChildren input vertex) wa1 c1 = Inr (wa', c2)"
    and r: "same_arrays w' wa'" "set (Blacklist w') = set (Blacklist wa')" by blast
  have "WriteCladeElement (Suc fuel) input vertex wa parentElement = Inr (wa', el')"
    using ca cha e by simp
  with r show ?case by blast
next
  case (3 fuel input w cladeElement)
  then show ?case by simp
next
  case (4 fuel input child rest w cladeElement)
  from WriteChildClades_Cons_Inr[OF "4.prems"(1)] obtain w1 c1 where
    c: "WriteCladeElement fuel input child w cladeElement = Inr (w1, c1)"
    and r: "WriteChildClades fuel input rest w1 c1 = Inr (w', el')"
    by blast
  have s: "similar input w wa" using "4.prems"(2,3) by (rule similar_of_equal)
  from "4.IH"(1)[OF c s] obtain wa1 where
    ca: "WriteCladeElement fuel input child wa cladeElement = Inr (wa1, c1)"
    and s1: "same_arrays w1 wa1" and b1: "set (Blacklist w1) = set (Blacklist wa1)" by blast
  from "4.IH"(2)[OF r s1 b1] obtain wa' where
    ra: "WriteChildClades fuel input rest wa1 c1 = Inr (wa', el')"
    and t: "same_arrays w' wa'" "set (Blacklist w') = set (Blacklist wa')" by blast
  have "WriteChildClades fuel input (child # rest) wa cladeElement = Inr (wa', el')"
    using ca ra by simp
  with t show ?case by blast
qed

section \<open>The blacklist after a write and the root element\<close>

lemma clade_blacklist_bound:
  "WriteCladeElement fuel input vertex w parentElement = Inr (w', el') \<Longrightarrow>
   \<forall>v. -1 \<notin> set (GetChildren input v) \<Longrightarrow> vertex \<noteq> -1 \<Longrightarrow>
     set (Blacklist w') \<subseteq> set (Blacklist w) \<union> fixed_names input w"
  and child_clades_blacklist_bound:
  "WriteChildClades fuel input children w cladeElement = Inr (w', el') \<Longrightarrow>
   \<forall>v. -1 \<notin> set (GetChildren input v) \<Longrightarrow> -1 \<notin> set children \<Longrightarrow>
     set (Blacklist w') \<subseteq> set (Blacklist w) \<union> fixed_names input w"
proof (induction fuel input vertex w parentElement and fuel input children w cladeElement
       arbitrary: w' el' and w' el' rule: WriteCladeElement_WriteChildClades.induct)
  case (1 input vertex w parentElement)
  then show ?case by simp
next
  case (2 fuel input vertex w parentElement)
  from WriteCladeElement_Suc_Inr[OF "2.prems"(1)] obtain w1 c1 c2 where
    c: "WriteCladeContent input vertex w (NewElement ''clade'') = Inr (w1, c1)"
    and ch: "WriteChildClades fuel input (GetChildren input vertex) w1 c1 = Inr (w', c2)"
    by blast
  have b1: "set (Blacklist w1) = set (Blacklist w) \<union> fixed_names input w"
    using WriteCladeContent_state(3)[OF c "2.prems"(3)] .
  have f1: "fixed_names input w1 = fixed_names input w"
    using calls_avoid_same_config[OF WriteCladeContent_state(1)[OF c]]
    by (rule fixed_names_same_config)
  have "-1 \<notin> set (GetChildren input vertex)" using "2.prems"(2) by blast
  from "2.IH"[OF ch "2.prems"(2) this] b1 f1 show ?case by auto
next
  case (3 fuel input w cladeElement)
  then show ?case by simp
next
  case (4 fuel input child rest w cladeElement)
  from WriteChildClades_Cons_Inr[OF "4.prems"(1)] obtain w1 c1 where
    c: "WriteCladeElement fuel input child w cladeElement = Inr (w1, c1)"
    and r: "WriteChildClades fuel input rest w1 c1 = Inr (w', el')"
    by blast
  from "4.prems"(3) have nc: "child \<noteq> -1" and nr: "-1 \<notin> set rest" by auto
  have b1: "set (Blacklist w1) \<subseteq> set (Blacklist w) \<union> fixed_names input w"
    using "4.IH"(1)[OF c "4.prems"(2) nc] .
  have f1: "fixed_names input w1 = fixed_names input w"
    using clade_calls_avoid[OF c] calls_avoid_same_config fixed_names_same_config by blast
  from "4.IH"(2)[OF r "4.prems"(2) nr] b1 f1 show ?case by auto
qed

lemma WriteTreeLevelElement_cong:
  assumes "WriteTreeLevelElement input elementName attributeName w el = Inr (w', el')"
  shows "\<exists>wa'. WriteTreeLevelElement input elementName attributeName wa el = Inr (wa', el')"
  using assms unfolding WriteTreeLevelElement_def Let_def
  by (cases "GetAbstractArray (GetVertexData input) (''phylogeny.'' @ elementName)")
     (auto simp: bind_eq_Inr)

lemma WriteTreeLevelProperties_loop_cong:
  "WriteTreeLevelProperties_loop arrays w el = Inr (w', el') \<Longrightarrow>
     \<exists>wa'. WriteTreeLevelProperties_loop arrays wa el = Inr (wa', el')"
proof (induction arrays arbitrary: w wa el)
  case Nil
  then show ?case by simp
next
  case (Cons a arrays)
  show ?case
  proof (cases "compare_prefix (Name a) ''phylogeny.property.''")
    case True
    with Cons.prems obtain w1 el1 where
      p: "WritePropertyElement a (-1) w el = Inr (w1, el1)"
      and r: "WriteTreeLevelProperties_loop arrays w1 el1 = Inr (w', el')"
      by (auto simp: bind_eq_Inr)
    from WritePropertyElement_cong[OF p] obtain wa1 where
      pa: "WritePropertyElement a (-1) wa el = Inr (wa1, el1)" by blast
    from Cons.IH[OF r] obtain wa' where
      "WriteTreeLevelProperties_loop arrays wa1 el1 = Inr (wa', el')" by blast
    with True pa show ?thesis by simp
  next
    case False
    with Cons.prems have "WriteTreeLevelProperties_loop arrays w el = Inr (w', el')" by simp
    from Cons.IH[OF this] False show ?thesis by simp
  qed
qed

lemma WriteData_rootElement_cong:
  assumes d: "WriteData_rootElement fuel input w = Inr (w', doc)"
    and sa: "same_arrays w wa"
    and eq: "set (Blacklist w) \<union> set (tree_level_names input) \<union> fixed_names input w
           = set (Blacklist wa) \<union> set (tree_level_names input) \<union> fixed_names input w"
  shows "\<exists>wa'. WriteData_rootElement fuel input wa = Inr (wa', doc)"
proof -
  let ?e0 = "SetAttribute (NewElement ''phylogeny'') ''rooted'' (Str ''true'')"
  from WriteData_rootElement_Inr[OF d] obtain w1 e1 w2 e2 w3 e3 w4 e4 where
    a1: "WriteTreeLevelElement input ''name'' [] w ?e0 = Inr (w1, e1)"
    and a2: "WriteTreeLevelElement input ''description'' [] w1 e1 = Inr (w2, e2)"
    and a3: "WriteTreeLevelElement input ''confidence'' ''type'' w2 e2 = Inr (w3, e3)"
    and a4: "WriteTreeLevelProperties input w3 e3 = Inr (w4, e4)"
    and a5: "WriteCladeElement fuel input (GetRoot input) w4 e4 = Inr (w', doc)"
    by blast
  from WriteTreeLevelElement_cong[OF a1] obtain wa1 where
    b1: "WriteTreeLevelElement input ''name'' [] wa ?e0 = Inr (wa1, e1)" by blast
  from WriteTreeLevelElement_cong[OF a2] obtain wa2 where
    b2: "WriteTreeLevelElement input ''description'' [] wa1 e1 = Inr (wa2, e2)" by blast
  from WriteTreeLevelElement_cong[OF a3] obtain wa3 where
    b3: "WriteTreeLevelElement input ''confidence'' ''type'' wa2 e2 = Inr (wa3, e3)" by blast
  from WriteTreeLevelProperties_loop_cong[OF a4[unfolded WriteTreeLevelProperties_def]]
  obtain wa4 where
    b4: "WriteTreeLevelProperties input wa3 e3 = Inr (wa4, e4)"
    unfolding WriteTreeLevelProperties_def by blast
  note sw = WriteTreeLevelElement_state[OF a1] WriteTreeLevelElement_state[OF a2]
    WriteTreeLevelElement_state[OF a3]
    WriteTreeLevelProperties_loop_state[OF a4[unfolded WriteTreeLevelProperties_def]]
  note swa = WriteTreeLevelElement_state[OF b1] WriteTreeLevelElement_state[OF b2]
    WriteTreeLevelElement_state[OF b3]
    WriteTreeLevelProperties_loop_state[OF b4[unfolded WriteTreeLevelProperties_def]]
  have c4: "same_config w w4" using sw by (simp add: same_config_def)
  have ca4: "same_config wa wa4" using swa by (simp add: same_config_def)
  have bl4: "Blacklist w4 = Blacklist w @ tree_level_names input"
    using sw by (simp add: tree_level_names_def tree_level_properties_def)
  have bla4: "Blacklist wa4 = Blacklist wa @ tree_level_names input"
    using swa by (simp add: tree_level_names_def tree_level_properties_def)
  have s4: "same_arrays w4 wa4"
    using sa c4 ca4 by (simp add: same_arrays_def same_config_def)
  have f4: "fixed_names input w4 = fixed_names input w"
    using c4 by (rule fixed_names_same_config)
  have "similar input w4 wa4"
    unfolding similar_def using s4 bl4 bla4 f4 eq by auto
  from clade_cong[OF a5 this] obtain wa' where
    b5: "WriteCladeElement fuel input (GetRoot input) wa4 e4 = Inr (wa', doc)" by blast
  have "WriteData_rootElement fuel input wa = Inr (wa', doc)"
    unfolding WriteData_rootElement_def Let_def using b1 b2 b3 b4 b5 by simp
  then show ?thesis by blast
qed

lemma WriteData_rootElement_blacklist_bound:
  assumes d: "WriteData_rootElement fuel input w = Inr (w', doc)"
    and "\<forall>v. -1 \<notin> set (GetChildren input v)" and "GetRoot input \<noteq> -1"
  shows "set (Blacklist w')
           \<subseteq> set (Blacklist w) \<union> set (tree_level_names input) \<union> fixed_names input w"
proof -
  from WriteData_rootElement_tree_level[OF d] obtain w4 e4 where
    sc: "same_config w w4"
    and bl: "Blacklist w4 = Blacklist w @ tree_level_names input"
    and e: "WriteCladeElement fuel input (GetRoot input) w4 e4 = Inr (w', doc)"
    by blast
  have "fixed_names input w4 = fixed_names input w"
    using sc by (rule fixed_names_same_config)
  with clade_blacklist_bound[OF e assms(2) assms(3)] bl show ?thesis by auto
qed

section \<open>Two writes with the same writer\<close>

lemma StartFile_cong:
  assumes "StartFile w = (s, w1)" and "Stream wa = Stream w"
  shows "\<exists>wa1. StartFile wa = (s, wa1) \<and> Stream wa1 = Stream w1"
  using assms unfolding StartFile_def Let_def by (auto split: if_splits)

lemma EndFile_stream:
  "Stream wa = Stream w \<Longrightarrow> Stream (snd (EndFile wa)) = Stream (snd (EndFile w))"
  unfolding EndFile_def Let_def by simp

lemma WriteData_0:
  "StartFile (with_arrays input w) = (0, w') \<Longrightarrow> WriteData fuel PrintXML input w = Inr (0, w')"
  unfolding WriteData_def with_arrays_def Let_def by simp

lemma WriteData_1:
  assumes "StartFile (with_arrays input w) = (s, w1)" and "s \<noteq> 0"
    and "WriteData_rootElement fuel input w1 = Inr (w2, doc)"
  shows "WriteData fuel PrintXML input w
           = Inr (1, snd (EndFile (w2\<lparr>Stream := os_put (Stream w2) (PrintXML doc)\<rparr>)))"
  using assms unfolding WriteData_def with_arrays_def Let_def
  by (simp add: case_prod_beta)

lemma WriteData_names:
  assumes "WriteData fuel PrintXML input w = Inr (r, w')"
  shows "EdgeWeightArrayName w' = EdgeWeightArrayName w \<and> NodeNameArrayName w' = NodeNameArrayName w"
proof -
  from WriteData_Inr[OF assms] consider
    (stop) "StartFile (with_arrays input w) = (0, w')"
  | (go) s w1 w2 doc where "StartFile (with_arrays input w) = (s, w1)"
      "WriteData_rootElement fuel input w1 = Inr (w2, doc)"
      "w' = snd (EndFile (w2\<lparr>Stream := os_put (Stream w2) (PrintXML doc)\<rparr>))"
    by blast
  then show ?thesis
  proof cases
    case stop
    from StartFile_state[OF stop] show ?thesis by (simp add: with_arrays_def)
  next
    case (go s w1 w2 doc)
    obtain r2 w3 where ef: "EndFile (w2\<lparr>Stream := os_put (Stream w2) (PrintXML doc)\<rparr>) = (r2, w3)"
      by (rule prod.exhaust)
    have "w' = w3" using go(3) ef by simp
    with EndFile_state[OF ef] WriteData_rootElement_state(1)[OF go(2)] StartFile_state[OF go(1)]
    show ?thesis by (simp add: with_arrays_def same_config_def)
  qed
qed

lemma with_arrays_cong:
  assumes "EdgeWeightArrayName wa = EdgeWeightArrayName w" "NodeNameArrayName wa = NodeNameArrayName w"
  shows "same_arrays (with_arrays input w) (with_arrays input wa)"
  using assms by (simp add: with_arrays_def same_arrays_def)

lemma with_arrays_fields [simp]:
  "Stream (with_arrays input w) = Stream w" "Blacklist (with_arrays input w) = Blacklist w"
  by (simp_all add: with_arrays_def)

text \<open>
  Claim C8. When a write returns, a second write of the same input with the same
  writer object, on a stream in the state in which the first one started, returns the
  same value and leaves the stream in the same state: the same characters are
  written. The vertex id \<open>-1\<close>, which \<^verbatim>\<open>WritePropertyElement\<close> takes for the sign of a
  tree-level call, is assumed not to be a vertex of the tree.
\<close>

theorem second_write_same_output:
  assumes h: "WriteData fuel PrintXML input w = Inr (r, w1)"
    and root: "GetRoot input \<noteq> -1" and kids: "\<forall>v. -1 \<notin> set (GetChildren input v)"
  shows "\<exists>w2. WriteData_twice fuel PrintXML input w = Inr (r, w2) \<and> Stream w2 = Stream w1"
proof -
  let ?wb = "w1\<lparr>Stream := Stream w\<rparr>"
  have tw: "WriteData_twice fuel PrintXML input w = WriteData fuel PrintXML input ?wb"
    using h by (simp add: WriteData_twice_def)
  note nm = WriteData_names[OF h]
  have sa: "same_arrays (with_arrays input w) (with_arrays input ?wb)"
    using nm by (intro with_arrays_cong) simp_all
  have st: "Stream (with_arrays input ?wb) = Stream (with_arrays input w)" by simp
  from WriteData_Inr[OF h] consider
    (stop) "r = 0" "StartFile (with_arrays input w) = (0, w1)"
  | (go) s wA1 wA2 doc where "r = 1" "s \<noteq> 0" "StartFile (with_arrays input w) = (s, wA1)"
      "WriteData_rootElement fuel input wA1 = Inr (wA2, doc)"
      "w1 = snd (EndFile (wA2\<lparr>Stream := os_put (Stream wA2) (PrintXML doc)\<rparr>))"
    by blast
  then show ?thesis
  proof cases
    case stop
    from StartFile_cong[OF stop(2) st] obtain wB1 where
      "StartFile (with_arrays input ?wb) = (0, wB1)" "Stream wB1 = Stream w1" by blast
    with WriteData_0[of input ?wb wB1 fuel PrintXML] stop(1) tw show ?thesis by simp
  next
    case (go s wA1 wA2 doc)
    from StartFile_cong[OF go(3) st] obtain wB1 where
      sb: "StartFile (with_arrays input ?wb) = (s, wB1)" and stb: "Stream wB1 = Stream wA1"
      by blast
    note fa = StartFile_state[OF go(3)] and fb = StartFile_state[OF sb]
    obtain r2 w3 where ef: "EndFile (wA2\<lparr>Stream := os_put (Stream wA2) (PrintXML doc)\<rparr>) = (r2, w3)"
      by (rule prod.exhaust)
    have w13: "w1 = w3" using go(5) ef by simp
    have bl1: "Blacklist w1 = Blacklist wA2" using EndFile_state[OF ef] w13 by simp
    have blA1: "Blacklist wA1 = Blacklist w" using fa by simp
    have blB1: "Blacklist wB1 = Blacklist wA2" using fb bl1 by simp
    have s1: "same_arrays wA1 wB1"
      using sa fa fb by (simp add: same_arrays_def)
    have lower: "set (Blacklist wA1) \<subseteq> set (Blacklist wA2)"
      using WriteData_rootElement_state(2)[OF go(4)] by auto
    have upper: "set (Blacklist wA2)
        \<subseteq> set (Blacklist wA1) \<union> set (tree_level_names input) \<union> fixed_names input wA1"
      using WriteData_rootElement_blacklist_bound[OF go(4) kids root] .
    have eq: "set (Blacklist wA1) \<union> set (tree_level_names input) \<union> fixed_names input wA1
            = set (Blacklist wB1) \<union> set (tree_level_names input) \<union> fixed_names input wA1"
      using lower upper blB1 by auto
    from WriteData_rootElement_cong[OF go(4) s1 eq] obtain wB2 where
      db: "WriteData_rootElement fuel input wB1 = Inr (wB2, doc)" by blast
    have "Stream wA2 = Stream wA1" "Stream wB2 = Stream wB1"
      using WriteData_rootElement_state(1)[OF go(4)] WriteData_rootElement_state(1)[OF db]
      by (simp_all add: same_config_def)
    with stb have "Stream (wB2\<lparr>Stream := os_put (Stream wB2) (PrintXML doc)\<rparr>)
          = Stream (wA2\<lparr>Stream := os_put (Stream wA2) (PrintXML doc)\<rparr>)" by simp
    from EndFile_stream[OF this] go(5) have
      "Stream (snd (EndFile (wB2\<lparr>Stream := os_put (Stream wB2) (PrintXML doc)\<rparr>))) = Stream w1"
      by simp
    with WriteData_1[OF sb go(2) db, of PrintXML] go(1) tw show ?thesis by simp
  qed
qed

section \<open>The nesting of the clade elements\<close>

lemma count_clades_sel:
  "count_clades e = (if ElementName e = ''clade'' then 1 else 0)
       + sum_list (map count_clades (NestedElements e))"
  by (cases e) simp

lemma clade_shape_sel:
  "clade_shape e = Shape (map clade_shape (filter (\<lambda>e. ElementName e = ''clade'') (NestedElements e)))"
  by (cases e) simp

lemma clades_last_sel:
  "clades_last e =
     (list_all (\<lambda>e. ElementName e = ''clade'')
        (dropWhile (\<lambda>e. ElementName e \<noteq> ''clade'') (NestedElements e))
      \<and> (\<forall>x \<in> set (NestedElements e). ElementName x = ''clade'' \<longrightarrow> clades_last x))"
  by (cases e) simp

lemma count_clades_0_name: "count_clades e = 0 \<Longrightarrow> ElementName e \<noteq> ''clade''"
  by (cases e) (auto split: if_splits)


lemma filter_own_clades:
  assumes "\<forall>e \<in> set own. count_clades e = 0" and "\<forall>c \<in> set cl. ElementName c = ''clade''"
  shows "filter (\<lambda>e. ElementName e = ''clade'') (own @ cl) = cl"
proof -
  have "filter (\<lambda>e. ElementName e = ''clade'') own = []"
    using assms(1) by (auto simp: filter_empty_conv dest: count_clades_0_name)
  moreover have "filter (\<lambda>e. ElementName e = ''clade'') cl = cl"
    using assms(2) by (simp add: filter_id_conv)
  ultimately show ?thesis by simp
qed

lemma dropWhile_own_clades:
  assumes "\<forall>e \<in> set own. count_clades e = 0" and "\<forall>c \<in> set cl. ElementName c = ''clade''"
  shows "dropWhile (\<lambda>e. ElementName e \<noteq> ''clade'') (own @ cl) = cl"
proof -
  have "dropWhile (\<lambda>e. ElementName e \<noteq> ''clade'') (own @ cl)
          = dropWhile (\<lambda>e. ElementName e \<noteq> ''clade'') cl"
    using assms(1) by (auto simp: dropWhile_append dest: count_clades_0_name)
  also have "\<dots> = cl" using assms(2) by (cases cl) auto
  finally show ?thesis .
qed

text \<open>What an element with nested elements \<open>own @ cl\<close> looks like, when nothing in \<open>own\<close>
  contains a clade and \<open>cl\<close> are clades.\<close>

lemma own_then_clades:
  assumes n: "NestedElements e = own @ cl"
    and own: "\<forall>x \<in> set own. count_clades x = 0"
    and cl: "\<forall>c \<in> set cl. ElementName c = ''clade'' \<and> clades_last c"
  shows "clade_shape e = Shape (map clade_shape cl)"
    and "count_clades e = (if ElementName e = ''clade'' then 1 else 0) + sum_list (map count_clades cl)"
    and "clades_last e"
proof -
  from cl have cl1: "\<forall>c \<in> set cl. ElementName c = ''clade''" by simp
  have "filter (\<lambda>e. ElementName e = ''clade'') (NestedElements e) = cl"
    using filter_own_clades[OF own cl1] by (simp only: n)
  then show "clade_shape e = Shape (map clade_shape cl)"
    using clade_shape_sel[of e] by (simp only:)
  have "sum_list (map count_clades own) = 0" using own by (induction own) auto
  then show "count_clades e
      = (if ElementName e = ''clade'' then 1 else 0) + sum_list (map count_clades cl)"
    using count_clades_sel[of e] n by simp
  have "dropWhile (\<lambda>e. ElementName e \<noteq> ''clade'') (NestedElements e) = cl"
    using dropWhile_own_clades[OF own cl1] by (simp only: n)
  then have "list_all (\<lambda>e. ElementName e = ''clade'')
          (dropWhile (\<lambda>e. ElementName e \<noteq> ''clade'') (NestedElements e))"
    using cl1 by (simp only: list_all_iff)
  moreover have "\<forall>x \<in> set (NestedElements e). ElementName x = ''clade'' \<longrightarrow> clades_last x"
    using n own cl by (auto dest: count_clades_0_name)
  ultimately show "clades_last e" using clades_last_sel[of e] by simp
qed

lemma clade_shape_of_tree:
  "WriteCladeElement fuel input vertex w parentElement = Inr (w', el') \<Longrightarrow>
   tree_at input t \<Longrightarrow> rroot t = vertex \<Longrightarrow>
     \<exists>c. el' = AddNestedElement parentElement c \<and> ElementName c = ''clade''
        \<and> clade_shape c = shape_of t \<and> count_clades c = nodes t \<and> clades_last c"
  and child_clade_shapes:
  "WriteChildClades fuel input children w cladeElement = Inr (w', el') \<Longrightarrow>
   map rroot ts = children \<Longrightarrow> \<forall>t \<in> set ts. tree_at input t \<Longrightarrow>
     ElementName el' = ElementName cladeElement
     \<and> (\<exists>cl. NestedElements el' = NestedElements cladeElement @ cl
            \<and> (\<forall>c \<in> set cl. ElementName c = ''clade'' \<and> clades_last c)
            \<and> map clade_shape cl = map shape_of ts
            \<and> map count_clades cl = map nodes ts)"
proof (induction fuel input vertex w parentElement and fuel input children w cladeElement
       arbitrary: w' el' t and w' el' ts rule: WriteCladeElement_WriteChildClades.induct)
  case (1 input vertex w parentElement)
  then show ?case by simp
next
  case (2 fuel input vertex w parentElement)
  from WriteCladeElement_Suc_Inr[OF "2.prems"(1)] obtain w1 c1 c2 where
    c: "WriteCladeContent input vertex w (NewElement ''clade'') = Inr (w1, c1)"
    and ch: "WriteChildClades fuel input (GetChildren input vertex) w1 c1 = Inr (w', c2)"
    and e: "el' = AddNestedElement parentElement c2"
    by blast
  obtain v ts where t: "t = RNode v ts" by (cases t) auto
  with "2.prems"(2,3) have ts: "map rroot ts = GetChildren input vertex"
    "\<forall>t \<in> set ts. tree_at input t" by simp_all
  from WriteCladeContent_extends[OF c] obtain own where
    n1: "ElementName c1 = ''clade''" and o1: "NestedElements c1 = own"
    and own: "\<forall>x \<in> set own. count_clades x = 0"
    by (auto simp: extends_def)
  from "2.IH"[OF ch ts] n1 o1 obtain cl where
    n2: "ElementName c2 = ''clade''" and o2: "NestedElements c2 = own @ cl"
    and cl: "\<forall>c \<in> set cl. ElementName c = ''clade'' \<and> clades_last c"
    and sh: "map clade_shape cl = map shape_of ts"
    and cn: "map count_clades cl = map nodes ts"
    by auto
  note oc = own_then_clades[OF o2 own cl]
  have "clade_shape c2 = shape_of t" using oc(1) sh t by simp
  moreover have "count_clades c2 = nodes t" using oc(2) n2 cn t by simp
  ultimately show ?case using e n2 oc(3) by blast
next
  case (3 fuel input w cladeElement)
  then show ?case by simp
next
  case (4 fuel input child rest w cladeElement)
  from WriteChildClades_Cons_Inr[OF "4.prems"(1)] obtain w1 c1 where
    c: "WriteCladeElement fuel input child w cladeElement = Inr (w1, c1)"
    and r: "WriteChildClades fuel input rest w1 c1 = Inr (w', el')"
    by blast
  from "4.prems"(2) obtain t ts' where ts: "ts = t # ts'" "rroot t = child" "map rroot ts' = rest"
    by (cases ts) auto
  with "4.prems"(3) have tt: "tree_at input t" "\<forall>t \<in> set ts'. tree_at input t" by simp_all
  from "4.IH"(1)[OF c tt(1) ts(2)] obtain x where
    x: "c1 = AddNestedElement cladeElement x" "ElementName x = ''clade''"
    "clade_shape x = shape_of t" "count_clades x = nodes t" "clades_last x" by blast
  from "4.IH"(2)[OF r ts(3) tt(2)] obtain cl where
    n: "ElementName el' = ElementName c1" and o: "NestedElements el' = NestedElements c1 @ cl"
    and cl: "\<forall>c \<in> set cl. ElementName c = ''clade'' \<and> clades_last c"
    and sh: "map clade_shape cl = map shape_of ts'"
    and cn: "map count_clades cl = map nodes ts'"
    by blast
  have "NestedElements el' = NestedElements cladeElement @ (x # cl)" using o x(1) by simp
  moreover have "\<forall>c \<in> set (x # cl). ElementName c = ''clade'' \<and> clades_last c"
    using x cl by simp
  moreover have "map clade_shape (x # cl) = map shape_of ts"
    "map count_clades (x # cl) = map nodes ts" using x sh cn ts(1) by simp_all
  moreover have "ElementName el' = ElementName cladeElement" using n x(1) by simp
  ultimately show ?case by blast
qed

section \<open>Writes that stay inside the buffers\<close>

lemma rows_ok_same_arrays: "rows_ok input w v \<Longrightarrow> same_arrays w wa \<Longrightarrow> rows_ok input wa v"
  by (simp add: rows_ok_def same_arrays_def)

lemma GetVariantValue_ok:
  "0 \<le> i \<Longrightarrow> i < int (length (Values a)) \<Longrightarrow> \<exists>x. GetVariantValue a i = Inr x"
  by (simp add: GetVariantValue_def)

lemma GetComponent_ok:
  assumes "0 \<le> v" and "int (NumberOfComponents a) * v + 2 < int (length (Values a))" and "j \<le> 2"
  shows "\<exists>x. GetComponent a v j = Inr x"
proof -
  have "0 \<le> int (NumberOfComponents a) * v" using assms(1) by simp
  with assms(2,3) show ?thesis by (simp add: GetComponent_def Let_def)
qed

lemma WriteBranchLengthAttribute_ok:
  assumes "rows_ok input w v"
  shows "\<exists>w' el'. WriteBranchLengthAttribute input v w el = Inr (w', el')"
proof (cases "EdgeWeightArray w")
  case None
  then show ?thesis by (simp add: WriteBranchLengthAttribute_def)
next
  case (Some a)
  show ?thesis
  proof (cases "GetParent input v \<noteq> -1 \<and> GetEdgeId input (GetParent input v) v \<noteq> -1")
    case True
    with assms Some have "0 \<le> GetEdgeId input (GetParent input v) v"
      "GetEdgeId input (GetParent input v) v < int (length (Values a))"
      by (simp_all add: rows_ok_def)
    from GetVariantValue_ok[OF this] obtain x where
      "GetVariantValue a (GetEdgeId input (GetParent input v) v) = Inr x" by blast
    with True Some show ?thesis by (simp add: WriteBranchLengthAttribute_def Let_def)
  next
    case False
    with Some show ?thesis by (auto simp: WriteBranchLengthAttribute_def Let_def)
  qed
qed

lemma WriteNameElement_ok:
  assumes "rows_ok input w v"
  shows "\<exists>w' el'. WriteNameElement v w el = Inr (w', el')"
proof (cases "NodeNameArray w")
  case None
  then show ?thesis by (simp add: WriteNameElement_def)
next
  case (Some a)
  with assms have "0 \<le> v" "v < int (length (Values a))" by (simp_all add: rows_ok_def)
  from GetVariantValue_ok[OF this] obtain x where "GetVariantValue a v = Inr x" by blast
  with Some show ?thesis by (simp add: WriteNameElement_def Let_def)
qed

lemma WriteConfidenceElement_ok:
  assumes "rows_ok input w v"
  shows "\<exists>w' el'. WriteConfidenceElement input v w el = Inr (w', el')"
proof (cases "GetAbstractArray (GetVertexData input) ''confidence''")
  case None
  then show ?thesis by (simp add: WriteConfidenceElement_def)
next
  case (Some a)
  then have "a \<in> set (GetVertexData input)" using GetAbstractArray_Some by blast
  with assms have "0 \<le> v" "v < int (length (Values a))" by (simp_all add: rows_ok_def)
  from GetVariantValue_ok[OF this] obtain x where "GetVariantValue a v = Inr x" by blast
  with Some show ?thesis by (simp add: WriteConfidenceElement_def Let_def)
qed

lemma WriteColorElement_ok:
  assumes "rows_ok input w v"
  shows "\<exists>w' el'. WriteColorElement input v w el = Inr (w', el')"
proof (cases "vtkArrayDownCast_UnsignedChar (GetAbstractArray (GetVertexData input) ''color'')")
  case None
  then show ?thesis by (simp add: WriteColorElement_def)
next
  case (Some a)
  with assms have v: "0 \<le> v" "int (NumberOfComponents a) * v + 2 < int (length (Values a))"
    by (simp_all add: rows_ok_def)
  from GetComponent_ok[OF v, of 0] GetComponent_ok[OF v, of 1] GetComponent_ok[OF v, of 2]
  obtain r g b where "GetComponent a v 0 = Inr r" "GetComponent a v 1 = Inr g"
    "GetComponent a v 2 = Inr b" by auto
  with Some show ?thesis by (simp add: WriteColorElement_def Let_def)
qed

lemma WritePropertyElement_ok:
  assumes "\<forall>e \<in> set (Information a). is_string_key e"
    and "0 \<le> (if v = -1 then 0 else v)" "(if v = -1 then 0 else v) < int (length (Values a))"
  shows "\<exists>w' el'. WritePropertyElement a v w el = Inr (w', el')"
proof -
  from assms(1) obtain r where r: "scan_information (Information a) ([], [], []) = Inr r"
    using scan_information_Inr_iff by blast
  obtain au ap un where "r = (au, ap, un)" by (cases r) auto
  moreover from GetVariantValue_ok[OF assms(2,3)] obtain x where
    "GetVariantValue a (if v = -1 then 0 else v) = Inr x" by blast
  ultimately show ?thesis using r by (simp add: WritePropertyElement_def Let_def)
qed

lemma WriteCladeProperties_ok:
  assumes "0 \<le> v" and "string_keys_only input"
  shows "\<forall>a \<in> set arrays. a \<in> set (GetVertexData input) \<and> v < int (length (Values a)) \<Longrightarrow>
     \<exists>w' el'. WriteCladeProperties arrays v w el = Inr (w', el')"
proof (induction arrays arbitrary: w el)
  case Nil
  then show ?case by simp
next
  case (Cons a arrays)
  from Cons.prems have rest: "\<forall>a \<in> set arrays. a \<in> set (GetVertexData input) \<and> v < int (length (Values a))"
    and a: "a \<in> set (GetVertexData input)" "v < int (length (Values a))" by simp_all
  show ?case
  proof (cases "same_array a (NodeNameArray w) \<or> same_array a (EdgeWeightArray w)
                 \<or> LookupValue (Blacklist w) (Name a) \<noteq> -1")
    case True
    then have "WriteCladeProperties (a # arrays) v w el = WriteCladeProperties arrays v w el"
      by (cases "same_array a (NodeNameArray w) \<or> same_array a (EdgeWeightArray w)") simp_all
    with Cons.IH[OF rest] show ?thesis by simp
  next
    case False
    have k: "\<forall>e \<in> set (Information a). is_string_key e"
      using assms(2) a(1) by (simp add: string_keys_only_def)
    have "0 \<le> (if v = -1 then 0 else v)" "(if v = -1 then 0 else v) < int (length (Values a))"
      using assms(1) a(2) by auto
    from WritePropertyElement_ok[OF k this] obtain w1 el1 where
      p: "WritePropertyElement a v w el = Inr (w1, el1)" by blast
    from Cons.IH[OF rest] obtain w' el' where
      "WriteCladeProperties arrays v w1 el1 = Inr (w', el')" by blast
    with False p show ?thesis by simp
  qed
qed

lemma WriteCladeContent_ok:
  assumes r: "rows_ok input w v" and k: "string_keys_only input"
  shows "\<exists>w' el'. WriteCladeContent input v w el = Inr (w', el')"
proof -
  from WriteBranchLengthAttribute_ok[OF r] obtain w1 e1 where
    a1: "WriteBranchLengthAttribute input v w el = Inr (w1, e1)" by blast
  have r1: "rows_ok input w1 v"
    using r grows_same_config[OF WriteBranchLengthAttribute_grows[OF a1]]
    by (blast intro: rows_ok_same_arrays same_config_arrays)
  from WriteNameElement_ok[OF r1] obtain w2 e2 where
    a2: "WriteNameElement v w1 e1 = Inr (w2, e2)" by blast
  have r2: "rows_ok input w2 v"
    using r1 grows_same_config[OF WriteNameElement_grows[OF a2]]
    by (blast intro: rows_ok_same_arrays same_config_arrays)
  from WriteConfidenceElement_ok[OF r2] obtain w3 e3 where
    a3: "WriteConfidenceElement input v w2 e2 = Inr (w3, e3)" by blast
  have r3: "rows_ok input w3 v"
    using r2 grows_same_config[OF WriteConfidenceElement_grows[OF a3]]
    by (blast intro: rows_ok_same_arrays same_config_arrays)
  from WriteColorElement_ok[OF r3] obtain w4 e4 where
    a4: "WriteColorElement input v w3 e3 = Inr (w4, e4)" by blast
  have "0 \<le> v" "\<forall>a \<in> set (GetVertexData input).
           a \<in> set (GetVertexData input) \<and> v < int (length (Values a))"
    using r by (simp_all add: rows_ok_def)
  from WriteCladeProperties_ok[OF this(1) k this(2)] obtain w' el' where
    a5: "WriteCladeProperties (GetVertexData input) v w4 e4 = Inr (w', el')" by blast
  have "WriteCladeContent input v w el = Inr (w', el')"
    unfolding WriteCladeContent_def using a1 a2 a3 a4 a5 by simp
  then show ?thesis by blast
qed

lemma foldr_max_ge: "x \<in> set xs \<Longrightarrow> (x::nat) \<le> foldr max xs 0"
  by (induction xs) (auto simp: max_def)

lemma depth_child: "t \<in> set ts \<Longrightarrow> depth t < depth (RNode v ts)"
  using foldr_max_ge[of "depth t" "map depth ts"] by (simp add: less_Suc_eq_le)

lemma clade_ok:
  "tree_at input t \<Longrightarrow> rroot t = vertex \<Longrightarrow> depth t \<le> fuel \<Longrightarrow>
   \<forall>u \<in> set (vertices t). rows_ok input w u \<Longrightarrow> string_keys_only input \<Longrightarrow>
     \<exists>w' el'. WriteCladeElement fuel input vertex w parentElement = Inr (w', el')"
  and child_clades_ok:
  "map rroot ts = children \<Longrightarrow>
   \<forall>t \<in> set ts. tree_at input t \<and> depth t \<le> fuel \<and> (\<forall>u \<in> set (vertices t). rows_ok input w u) \<Longrightarrow>
   string_keys_only input \<Longrightarrow>
     \<exists>w' el'. WriteChildClades fuel input children w cladeElement = Inr (w', el')"
proof (induction fuel input vertex w parentElement and fuel input children w cladeElement
       arbitrary: t and ts rule: WriteCladeElement_WriteChildClades.induct)
  case (1 input vertex w parentElement)
  then show ?case by (cases t) simp
next
  case (2 fuel input vertex w parentElement)
  obtain v ts where t: "t = RNode v ts" by (cases t) auto
  with "2.prems" have v: "v = vertex" and ts: "map rroot ts = GetChildren input vertex"
    and tt: "\<forall>t \<in> set ts. tree_at input t" and r: "rows_ok input w vertex"
    and ru: "\<forall>t \<in> set ts. \<forall>u \<in> set (vertices t). rows_ok input w u" by auto
  have d: "\<forall>t \<in> set ts. depth t \<le> fuel"
    using depth_child[of _ ts v] "2.prems"(3) t by fastforce
  from WriteCladeContent_ok[OF r "2.prems"(5)] obtain w1 c1 where
    c: "WriteCladeContent input vertex w (NewElement ''clade'') = Inr (w1, c1)" by blast
  have s1: "same_arrays w w1"
    using calls_avoid_same_config[OF WriteCladeContent_state(1)[OF c]] by (rule same_config_arrays)
  have "\<forall>t \<in> set ts. tree_at input t \<and> depth t \<le> fuel
            \<and> (\<forall>u \<in> set (vertices t). rows_ok input w1 u)"
    using tt d ru s1 by (blast intro: rows_ok_same_arrays)
  from "2.IH"[OF ts this "2.prems"(5)] obtain w' c2 where
    "WriteChildClades fuel input (GetChildren input vertex) w1 c1 = Inr (w', c2)" by blast
  with c show ?case by simp
next
  case (3 fuel input w cladeElement)
  then show ?case by simp
next
  case (4 fuel input child rest w cladeElement)
  from "4.prems"(1) obtain t ts' where ts: "ts = t # ts'" "rroot t = child" "map rroot ts' = rest"
    by (cases ts) auto
  with "4.prems"(2) have t: "tree_at input t" "depth t \<le> fuel"
    "\<forall>u \<in> set (vertices t). rows_ok input w u"
    and r: "\<forall>t \<in> set ts'. tree_at input t \<and> depth t \<le> fuel
               \<and> (\<forall>u \<in> set (vertices t). rows_ok input w u)" by simp_all
  from "4.IH"(1)[OF t(1) ts(2) t(2) t(3) "4.prems"(3)] obtain w1 c1 where
    c: "WriteCladeElement fuel input child w cladeElement = Inr (w1, c1)" by blast
  have s1: "same_arrays w w1"
    using clade_calls_avoid[OF c] calls_avoid_same_config same_config_arrays by blast
  have "\<forall>t \<in> set ts'. tree_at input t \<and> depth t \<le> fuel
            \<and> (\<forall>u \<in> set (vertices t). rows_ok input w1 u)"
    using r s1 by (blast intro: rows_ok_same_arrays)
  from "4.IH"(2)[OF ts(3) this "4.prems"(3)] obtain w' el' where
    "WriteChildClades fuel input rest w1 c1 = Inr (w', el')" by blast
  with c show ?case by simp
qed

section \<open>Clades for the subtrees\<close>

lemma Attributes_AddNestedElement [simp]: "Attributes (AddNestedElement e x) = Attributes e"
  by (cases e) simp

lemma CharacterData_AddNestedElement [simp]: "CharacterData (AddNestedElement e x) = CharacterData e"
  by (cases e) simp

lemma clade_for_tree:
  "WriteCladeElement fuel input vertex w parentElement = Inr (w', el') \<Longrightarrow>
   tree_at input t \<Longrightarrow> rroot t = vertex \<Longrightarrow>
     \<exists>c. el' = AddNestedElement parentElement c \<and> clade_for input t c"
  and child_clades_for_trees:
  "WriteChildClades fuel input children w cladeElement = Inr (w', el') \<Longrightarrow>
   map rroot ts = children \<Longrightarrow> \<forall>t \<in> set ts. tree_at input t \<Longrightarrow>
     ElementName el' = ElementName cladeElement \<and> Attributes el' = Attributes cladeElement
     \<and> CharacterData el' = CharacterData cladeElement
     \<and> (\<exists>cl. NestedElements el' = NestedElements cladeElement @ cl
            \<and> list_all2 (clade_for input) ts cl)"
proof (induction fuel input vertex w parentElement and fuel input children w cladeElement
       arbitrary: w' el' t and w' el' ts rule: WriteCladeElement_WriteChildClades.induct)
  case (1 input vertex w parentElement)
  then show ?case by simp
next
  case (2 fuel input vertex w parentElement)
  from WriteCladeElement_Suc_Inr[OF "2.prems"(1)] obtain w1 c1 c2 where
    c: "WriteCladeContent input vertex w (NewElement ''clade'') = Inr (w1, c1)"
    and ch: "WriteChildClades fuel input (GetChildren input vertex) w1 c1 = Inr (w', c2)"
    and e: "el' = AddNestedElement parentElement c2"
    by blast
  obtain v ts where t: "t = RNode v ts" by (cases t) auto
  with "2.prems"(2,3) have v: "v = vertex" and ts: "map rroot ts = GetChildren input vertex"
    "\<forall>t \<in> set ts. tree_at input t" by simp_all
  from "2.IH"[OF ch ts] obtain cl where
    "ElementName c2 = ElementName c1" "Attributes c2 = Attributes c1"
    "CharacterData c2 = CharacterData c1" "NestedElements c2 = NestedElements c1 @ cl"
    "list_all2 (clade_for input) ts cl" by blast
  with c have "clade_for input (RNode vertex ts) c2" by (rule clade_for.intros)
  with e t v show ?case by blast
next
  case (3 fuel input w cladeElement)
  then show ?case by simp
next
  case (4 fuel input child rest w cladeElement)
  from WriteChildClades_Cons_Inr[OF "4.prems"(1)] obtain w1 c1 where
    c: "WriteCladeElement fuel input child w cladeElement = Inr (w1, c1)"
    and r: "WriteChildClades fuel input rest w1 c1 = Inr (w', el')"
    by blast
  from "4.prems"(2) obtain t ts' where ts: "ts = t # ts'" "rroot t = child" "map rroot ts' = rest"
    by (cases ts) auto
  with "4.prems"(3) have tt: "tree_at input t" "\<forall>t \<in> set ts'. tree_at input t" by simp_all
  from "4.IH"(1)[OF c tt(1) ts(2)] obtain x where
    x: "c1 = AddNestedElement cladeElement x" "clade_for input t x" by blast
  from "4.IH"(2)[OF r ts(3) tt(2)] obtain cl where
    n: "ElementName el' = ElementName c1" "Attributes el' = Attributes c1"
    "CharacterData el' = CharacterData c1"
    and o: "NestedElements el' = NestedElements c1 @ cl"
    and cl: "list_all2 (clade_for input) ts' cl"
    by blast
  have "NestedElements el' = NestedElements cladeElement @ (x # cl)" using o x(1) by simp
  moreover have "list_all2 (clade_for input) ts (x # cl)" using x(2) cl ts(1) by simp
  ultimately show ?case using n x(1) by auto
qed

section \<open>The document of a write\<close>

lemma WriteTreeLevelElement_ok:
  assumes "\<forall>a \<in> set (GetVertexData input). 0 < length (Values a)"
  shows "\<exists>w' el'. WriteTreeLevelElement input elementName attributeName w el = Inr (w', el')"
proof (cases "GetAbstractArray (GetVertexData input) (''phylogeny.'' @ elementName)")
  case None
  then show ?thesis by (simp add: WriteTreeLevelElement_def)
next
  case (Some a)
  then have "a \<in> set (GetVertexData input)" using GetAbstractArray_Some by blast
  with assms have "(0::int) \<le> 0" "0 < int (length (Values a))" by simp_all
  from GetVariantValue_ok[OF this] obtain x where "GetVariantValue a 0 = Inr x" by blast
  with Some show ?thesis by (simp add: WriteTreeLevelElement_def Let_def)
qed

lemma WriteTreeLevelElement_extends:
  "WriteTreeLevelElement input elementName attributeName w el = Inr (w', el') \<Longrightarrow>
   elementName \<noteq> ''clade'' \<Longrightarrow> extends el el'"
  unfolding WriteTreeLevelElement_def Let_def
  by (cases "GetAbstractArray (GetVertexData input) (''phylogeny.'' @ elementName)")
     (auto simp: bind_eq_Inr extends_AddNestedElement)

lemma WriteTreeLevelProperties_loop_ok:
  "\<forall>a \<in> set arrays. (\<forall>e \<in> set (Information a). is_string_key e) \<and> 0 < length (Values a) \<Longrightarrow>
     \<exists>w' el'. WriteTreeLevelProperties_loop arrays w el = Inr (w', el')"
proof (induction arrays arbitrary: w el)
  case Nil
  then show ?case by simp
next
  case (Cons a arrays)
  from Cons.prems have rest:
    "\<forall>a \<in> set arrays. (\<forall>e \<in> set (Information a). is_string_key e) \<and> 0 < length (Values a)"
    and k: "\<forall>e \<in> set (Information a). is_string_key e" and n: "0 < length (Values a)"
    by simp_all
  show ?case
  proof (cases "compare_prefix (Name a) ''phylogeny.property.''")
    case True
    have "(0::int) \<le> (if (-1::int) = -1 then 0 else -1)"
      "(if (-1::int) = -1 then 0 else -1) < int (length (Values a))" using n by simp_all
    from WritePropertyElement_ok[OF k this] obtain w1 el1 where
      p: "WritePropertyElement a (-1) w el = Inr (w1, el1)" by blast
    from Cons.IH[OF rest] obtain w' el' where
      "WriteTreeLevelProperties_loop arrays w1 el1 = Inr (w', el')" by blast
    with True p show ?thesis by simp
  next
    case False
    with Cons.IH[OF rest] show ?thesis by simp
  qed
qed

lemma WriteTreeLevelProperties_loop_extends:
  "WriteTreeLevelProperties_loop arrays w el = Inr (w', el') \<Longrightarrow> extends el el'"
proof (induction arrays arbitrary: w el)
  case Nil
  then show ?case by simp
next
  case (Cons a arrays)
  show ?case
  proof (cases "compare_prefix (Name a) ''phylogeny.property.''")
    case True
    with Cons.prems obtain w1 el1 where
      p: "WritePropertyElement a (-1) w el = Inr (w1, el1)"
      and r: "WriteTreeLevelProperties_loop arrays w1 el1 = Inr (w', el')"
      by (auto simp: bind_eq_Inr)
    from WritePropertyElement_extends[OF p] Cons.IH[OF r] show ?thesis by (rule extends_trans)
  next
    case False
    with Cons.prems have "WriteTreeLevelProperties_loop arrays w el = Inr (w', el')" by simp
    then show ?thesis by (rule Cons.IH)
  qed
qed

lemma WriteData_rootElement_ok:
  assumes t: "tree_at input t" "rroot t = GetRoot input" "depth t \<le> fuel"
    and r: "\<forall>u \<in> set (vertices t). rows_ok input w u" and k: "string_keys_only input"
  shows "\<exists>w' doc. WriteData_rootElement fuel input w = Inr (w', doc)
           \<and> count_clades doc = nodes t \<and> clade_shape doc = Shape [shape_of t]
           \<and> clades_last doc
           \<and> (\<exists>own c. NestedElements doc = own @ [c] \<and> list_all (\<lambda>x. count_clades x = 0) own
                  \<and> clade_for input t c)"
proof -
  let ?e0 = "SetAttribute (NewElement ''phylogeny'') ''rooted'' (Str ''true'')"
  have "GetRoot input \<in> set (vertices t)" using t(2) by (cases t) auto
  with r have "rows_ok input w (GetRoot input)" by blast
  then have ne: "\<forall>a \<in> set (GetVertexData input). 0 < length (Values a)"
    by (auto simp: rows_ok_def)
  from WriteTreeLevelElement_ok[OF ne] obtain w1 e1 where
    a1: "WriteTreeLevelElement input ''name'' [] w ?e0 = Inr (w1, e1)" by blast
  from WriteTreeLevelElement_ok[OF ne] obtain w2 e2 where
    a2: "WriteTreeLevelElement input ''description'' [] w1 e1 = Inr (w2, e2)" by blast
  from WriteTreeLevelElement_ok[OF ne] obtain w3 e3 where
    a3: "WriteTreeLevelElement input ''confidence'' ''type'' w2 e2 = Inr (w3, e3)" by blast
  have "\<forall>a \<in> set (GetVertexData input).
          (\<forall>e \<in> set (Information a). is_string_key e) \<and> 0 < length (Values a)"
    using ne k by (simp add: string_keys_only_def)
  from WriteTreeLevelProperties_loop_ok[OF this] obtain w4 e4 where
    a4: "WriteTreeLevelProperties_loop (GetVertexData input) w3 e3 = Inr (w4, e4)" by blast
  note sw = WriteTreeLevelElement_state[OF a1] WriteTreeLevelElement_state[OF a2]
    WriteTreeLevelElement_state[OF a3] WriteTreeLevelProperties_loop_state[OF a4]
  have s4: "same_arrays w w4" using sw by (simp add: same_config_def same_arrays_def)
  have r4: "\<forall>u \<in> set (vertices t). rows_ok input w4 u"
    using r s4 by (blast intro: rows_ok_same_arrays)
  from clade_ok[OF t r4 k] obtain w' doc where
    a5: "WriteCladeElement fuel input (GetRoot input) w4 e4 = Inr (w', doc)" by blast
  have d: "WriteData_rootElement fuel input w = Inr (w', doc)"
    unfolding WriteData_rootElement_def WriteTreeLevelProperties_def Let_def
    using a1 a2 a3 a4 a5 by simp
  have x1: "extends ?e0 e1" using WriteTreeLevelElement_extends[OF a1] by simp
  have x2: "extends e1 e2" using WriteTreeLevelElement_extends[OF a2] by simp
  have x3: "extends e2 e3" using WriteTreeLevelElement_extends[OF a3] by simp
  note x1
  also note x2
  also note x3
  also note WriteTreeLevelProperties_loop_extends[OF a4]
  finally have "extends ?e0 e4" .
  then obtain own where n4: "ElementName e4 = ''phylogeny''" and o4: "NestedElements e4 = own"
    and own: "\<forall>x \<in> set own. count_clades x = 0"
    by (auto simp: extends_def)
  from clade_shape_of_tree[OF a5 t(1) t(2)] obtain c where
    c: "doc = AddNestedElement e4 c" "ElementName c = ''clade''" "clade_shape c = shape_of t"
    "count_clades c = nodes t" "clades_last c" by blast
  from clade_for_tree[OF a5 t(1) t(2)] obtain c' where
    c': "doc = AddNestedElement e4 c'" "clade_for input t c'" by blast
  have "NestedElements (AddNestedElement e4 c) = NestedElements (AddNestedElement e4 c')"
    using c(1) c'(1) by simp
  then have "c' = c" by simp
  with c'(2) have cf: "clade_for input t c" by simp
  have nd: "NestedElements doc = own @ [c]" using c(1) o4 by simp
  have cl: "\<forall>x \<in> set [c]. ElementName x = ''clade'' \<and> clades_last x" using c by simp
  note oc = own_then_clades[OF nd own cl]
  have "ElementName doc = ''phylogeny''" using c(1) n4 by simp
  with oc c have p: "count_clades doc = nodes t" "clade_shape doc = Shape [shape_of t]"
    "clades_last doc" by simp_all
  have "list_all (\<lambda>x. count_clades x = 0) own" using own by (simp add: list_all_iff)
  with nd cf have "\<exists>own c. NestedElements doc = own @ [c]
      \<and> list_all (\<lambda>x. count_clades x = 0) own \<and> clade_for input t c" by blast
  with d p show ?thesis by blast
qed

text \<open>
  Claim C1. Let the vtkTree below its root be the tree \<open>t\<close>, let the recursion be allowed
  the depth of \<open>t\<close>, let every read for a vertex of \<open>t\<close> stay inside the buffers, let every
  information key be a string key, and let the file be started. Then \<^verbatim>\<open>WriteData\<close>
  returns \<open>1\<close> and prints a \<open>phylogeny\<close> element in which the number of \<open>clade\<close> elements is
  the number of nodes of \<open>t\<close>, the nesting of the \<open>clade\<close> elements is the nesting of \<open>t\<close>
  with the children in their order, starting with one clade for the root, and in every
  clade the nested clades come after the content of the clade itself. The last element
  nested in the \<open>phylogeny\<close> element is a clade for \<open>t\<close>: the content written for the
  root of \<open>t\<close>, then a clade for each subtree, in the order of the children.
\<close>

theorem clade_elements_mirror_tree:
  assumes "tree_at input t" and "rroot t = GetRoot input" and "depth t \<le> fuel"
    and "\<forall>u \<in> set (vertices t). rows_ok input (with_arrays input w) u"
    and "string_keys_only input"
    and "fst (StartFile (with_arrays input w)) \<noteq> 0"
  shows "\<exists>w2 doc.
           WriteData_rootElement fuel input (snd (StartFile (with_arrays input w))) = Inr (w2, doc)
         \<and> WriteData fuel PrintXML input w
             = Inr (1, snd (EndFile (w2\<lparr>Stream := os_put (Stream w2) (PrintXML doc)\<rparr>)))
         \<and> count_clades doc = nodes t \<and> clade_shape doc = Shape [shape_of t]
         \<and> clades_last doc
         \<and> (\<exists>own c. NestedElements doc = own @ [c] \<and> list_all (\<lambda>x. count_clades x = 0) own
                \<and> clade_for input t c)"
proof -
  obtain s w1 where s: "StartFile (with_arrays input w) = (s, w1)" by (rule prod.exhaust)
  with assms(6) have s0: "s \<noteq> 0" by simp
  have "same_arrays (with_arrays input w) w1"
    using StartFile_state[OF s] by (simp add: same_arrays_def)
  with assms(4) have r1: "\<forall>u \<in> set (vertices t). rows_ok input w1 u"
    by (blast intro: rows_ok_same_arrays)
  from WriteData_rootElement_ok[OF assms(1,2,3) r1 assms(5)] obtain w2 doc where
    d: "WriteData_rootElement fuel input w1 = Inr (w2, doc)"
    and p: "count_clades doc = nodes t" "clade_shape doc = Shape [shape_of t]" "clades_last doc"
      "\<exists>own c. NestedElements doc = own @ [c] \<and> list_all (\<lambda>x. count_clades x = 0) own
         \<and> clade_for input t c"
    by blast
  have "WriteData_rootElement fuel input (snd (StartFile (with_arrays input w))) = Inr (w2, doc)"
    using d s by simp
  with WriteData_1[OF s s0 d, of PrintXML] p show ?thesis by blast
qed

section \<open>Writes of concrete inputs\<close>

lemmas write_defs =
  WriteData_def WriteData_rootElement_def StartFile_def EndFile_def os_put_def os_flush_def
  os_endl_def WriteTreeLevelElement_def WriteTreeLevelProperties_def GetAbstractArray_def
  WriteCladeContent_def WriteBranchLengthAttribute_def WriteNameElement_def
  WriteConfidenceElement_def WriteColorElement_def vtkArrayDownCast_UnsignedChar_def
  WritePropertyElement_def PropertyElement_def property_ref_def string_find_def substr_def
  xsd_datatype_def GetVariantValue_def GetComponent_def GetArrayAttribute_def IgnoreArray_def
  compare_prefix_def NewElement_def New_def Let_def

lemmas input_defs =
  example_tree_def single_vertex_tree_def good_stream_def closing_fault_stream_def
  strings3_def edge_weight_def vertex_weight_def color_rgb_def mk_variant_def
  color_of_doubles_def color_one_component_def phylogeny_name_def phylogeny_property_foo_def
  property_habitat_def habitat_other_key_def habitat_string_key_def

lemma example_write:
  "\<exists>w'. WriteData 2 print_names example_tree (New good_stream) = Inr (1, w')"
  by (simp add: write_defs input_defs numeral_2_eq_2)

theorem fixed_categories_not_clade_properties_witness:
  "\<exists>w'. WriteData 2 print_names example_tree (New good_stream) = Inr (1, w')
      \<and> fixed_category example_tree (New good_stream) color_rgb
      \<and> Name color_rgb \<in> set (Blacklist w')
      \<and> (\<exists>clade_calls.
            PropertyCalls w' = PropertyCalls (New good_stream)
              @ map (\<lambda>a. (a, -1)) (tree_level_properties example_tree) @ clade_calls
            \<and> (\<forall>(a, u) \<in> set clade_calls. Name a \<noteq> Name color_rgb))"
proof -
  from example_write obtain w' where
    h: "WriteData 2 print_names example_tree (New good_stream) = Inr (1, w')" by blast
  have c: "fixed_category example_tree (New good_stream) color_rgb"
    by (simp add: fixed_category_def example_tree_def color_rgb_def GetAbstractArray_def
          vtkArrayDownCast_UnsignedChar_def strings3_def vertex_weight_def)
  from fixed_categories_not_clade_properties[OF h c] h c show ?thesis by blast
qed

theorem color_of_doubles_counterexample:
  "map_sum id fst (WriteData 1 print_names (single_vertex_tree [color_of_doubles]) (New good_stream))
     = Inr 1
   \<and> map_sum id (Blacklist \<circ> snd)
       (WriteData 1 print_names (single_vertex_tree [color_of_doubles]) (New good_stream))
     = Inr []
   \<and> map_sum id (PropertyCalls \<circ> snd)
       (WriteData 1 print_names (single_vertex_tree [color_of_doubles]) (New good_stream))
     = Inr [(color_of_doubles, 0)]"
  by (simp add: write_defs single_vertex_tree_def good_stream_def color_of_doubles_def
        mk_variant_def)

theorem edge_weight_name_blocks_vertex_array_witness:
  "\<exists>w'. WriteData 2 print_names example_tree (New good_stream) = Inr (1, w')
      \<and> GetAbstractArray (GetEdgeData example_tree) (EdgeWeightArrayName (New good_stream))
          = Some edge_weight
      \<and> vertex_weight \<in> set (GetVertexData example_tree)
      \<and> Name vertex_weight = Name edge_weight \<and> Addr vertex_weight \<noteq> Addr edge_weight
      \<and> Name edge_weight \<in> set (Blacklist w')
      \<and> (\<exists>clade_calls.
            PropertyCalls w' = PropertyCalls (New good_stream)
              @ map (\<lambda>a. (a, -1)) (tree_level_properties example_tree) @ clade_calls
            \<and> (\<forall>(a, u) \<in> set clade_calls. a \<noteq> vertex_weight))"
proof -
  from example_write obtain w' where
    h: "WriteData 2 print_names example_tree (New good_stream) = Inr (1, w')" by blast
  have e: "GetAbstractArray (GetEdgeData example_tree) (EdgeWeightArrayName (New good_stream))
          = Some edge_weight"
    by (simp add: example_tree_def GetAbstractArray_def New_def edge_weight_def)
  have m: "vertex_weight \<in> set (GetVertexData example_tree)"
    by (simp add: example_tree_def)
  have n: "Name vertex_weight = Name edge_weight" "Addr vertex_weight \<noteq> Addr edge_weight"
    by (simp_all add: vertex_weight_def edge_weight_def)
  from edge_weight_name_blocks_vertex_array[OF h e m n(1)] h e m n show ?thesis by blast
qed

theorem blacklist_kept_by_writer_witness:
  "\<exists>w'. WriteData 2 print_names example_tree (New good_stream) = Inr (1, w')
      \<and> (\<exists>added. Blacklist w' = Blacklist (New good_stream) @ added)
      \<and> (\<exists>added. Blacklist w' = Blacklist (New good_stream) @ tree_level_names example_tree @ added)"
proof -
  from example_write obtain w' where
    h: "WriteData 2 print_names example_tree (New good_stream) = Inr (1, w')" by blast
  from blacklist_kept_by_writer[of good_stream 2 print_names example_tree "New good_stream" 1 w'] h
  show ?thesis by blast
qed

theorem blacklist_carried_over_counterexample:
  "map_sum id (Blacklist \<circ> snd)
     (WriteData 1 print_names (single_vertex_tree [phylogeny_name]) (New good_stream))
     = Inr [''phylogeny.name'']
   \<and> map_sum id (Blacklist \<circ> snd)
     (WriteData_twice 1 print_names (single_vertex_tree [phylogeny_name]) (New good_stream))
     = Inr [''phylogeny.name'', ''phylogeny.name'']"
  by (simp add: WriteData_twice_def write_defs single_vertex_tree_def good_stream_def
        phylogeny_name_def mk_variant_def)

text \<open>
  Claim C3 against the code. On a stream whose flush in \<^verbatim>\<open>EndFile\<close> fails, \<^verbatim>\<open>EndFile\<close>
  returns \<open>0\<close> and sets the error code, and \<^verbatim>\<open>WriteData\<close> still returns \<open>1\<close>.
\<close>

theorem WriteData_ignores_EndFile:
  "map_sum id fst
     (WriteData 1 print_names (single_vertex_tree []) (New closing_fault_stream)) = Inr 1
   \<and> map_sum id (ErrorCode \<circ> snd)
     (WriteData 1 print_names (single_vertex_tree []) (New closing_fault_stream))
     = Inr LastSystemError
   \<and> map_sum id (Fail \<circ> Stream \<circ> snd)
     (WriteData 1 print_names (single_vertex_tree []) (New closing_fault_stream)) = Inr True
   \<and> fst (EndFile ((New closing_fault_stream)\<lparr>Stream := \<lparr>Written = [], Fail = False, FlushFaults = [True]\<rparr>\<rparr>)) = 0"
  by (simp add: write_defs single_vertex_tree_def closing_fault_stream_def)

text \<open>
  Claim C7 against the code. For a vtkUnsignedCharArray named \<open>color\<close> with one
  component per tuple, \<^verbatim>\<open>WriteColorElement\<close> passes the cast and reads the components
  \<open>1\<close> and \<open>2\<close> of the tuple, outside the buffer.
\<close>

theorem WriteColorElement_one_component:
  "WriteColorElement (single_vertex_tree [color_one_component]) 0 (New good_stream)
     (NewElement ''clade'') = Inl OutOfBounds
   \<and> WriteData 1 print_names (single_vertex_tree [color_one_component]) (New good_stream)
     = Inl OutOfBounds"
  by (simp add: write_defs single_vertex_tree_def good_stream_def color_one_component_def
        mk_variant_def)

text \<open>
  Claim C5, as the code has it. The \<open>ref\<close> attribute of a property element is the
  authority, a colon and a local name. The authority is the string under the last
  string key named \<open>authority\<close> of the array, and \<open>VTK\<close> when there is none or it is
  empty. The local name is what follows the first occurrence of \<open>property.\<close> in the name
  of the array, wherever it occurs (so for a name that starts with \<open>property.\<close> that
  prefix is dropped), and the whole name when \<open>property.\<close> does not occur in it.
\<close>

theorem WritePropertyElement_ref:
  assumes "WritePropertyElement array vertex w element = Inr (w', element')"
  shows "\<exists>p authority.
           element' = AddNestedElement element p \<and> ElementName p = ''property''
         \<and> authority = (if string_values (Information array) ''authority'' = []
                            \<or> last (string_values (Information array) ''authority'') = []
                         then ''VTK'' else last (string_values (Information array) ''authority''))
         \<and> (\<forall>pre rest. Name array = pre @ ''property.'' @ rest
                \<and> (\<forall>pre' rest'. Name array = pre' @ ''property.'' @ rest' \<longrightarrow> length pre \<le> length pre')
              \<longrightarrow> GetAttribute p ''ref'' = Some (Str (authority @ '':'' @ rest)))
         \<and> ((\<forall>pre rest. Name array \<noteq> pre @ ''property.'' @ rest)
              \<longrightarrow> GetAttribute p ''ref'' = Some (Str (authority @ '':'' @ Name array)))"
proof -
  from WritePropertyElement_Inr[OF assms] obtain a ap un v where
    s: "scan_information (Information array) ([], [], []) = Inr (a, ap, un)"
    and e: "element' = AddNestedElement element (PropertyElement a ap un (Name array) v)"
    by blast
  let ?au = "if a = [] then ''VTK'' else a"
  let ?p = "PropertyElement a ap un (Name array) v"
  have au: "?au = (if string_values (Information array) ''authority'' = []
                            \<or> last (string_values (Information array) ''authority'') = []
                         then ''VTK'' else last (string_values (Information array) ''authority''))"
    using scan_information_authority[OF s] by auto
  have r: "GetAttribute ?p ''ref'' = Some (Str (property_ref ?au (Name array)))"
    by (rule PropertyElement_ref)
  have f: "\<forall>pre rest. Name array = pre @ ''property.'' @ rest
                \<and> (\<forall>pre' rest'. Name array = pre' @ ''property.'' @ rest' \<longrightarrow> length pre \<le> length pre')
              \<longrightarrow> GetAttribute ?p ''ref'' = Some (Str (?au @ '':'' @ rest))"
    using r property_ref_found[of "Name array"] by metis
  have n: "(\<forall>pre rest. Name array \<noteq> pre @ ''property.'' @ rest)
              \<longrightarrow> GetAttribute ?p ''ref'' = Some (Str (?au @ '':'' @ Name array))"
    using r property_ref_not_found[of "Name array" ?au] by auto
  show ?thesis
    apply (rule exI[of _ ?p], rule exI[of _ ?au])
    using e au f n by simp
qed

theorem WritePropertyElement_ref_witness:
  "\<exists>w' element' p.
     WritePropertyElement property_habitat 0 (New good_stream) (NewElement ''clade'')
       = Inr (w', element')
     \<and> Name property_habitat = [] @ ''property.'' @ ''habitat''
     \<and> element' = AddNestedElement (NewElement ''clade'') p
     \<and> GetAttribute p ''ref'' = Some (Str ''VTK:habitat'')"
proof -
  obtain w' element' where
    h: "WritePropertyElement property_habitat 0 (New good_stream) (NewElement ''clade'')
          = Inr (w', element')"
    by (simp add: write_defs property_habitat_def mk_variant_def)
  have n: "Name property_habitat = [] @ ''property.'' @ ''habitat''"
    by (simp add: property_habitat_def)
  have m: "\<forall>pre' rest'. Name property_habitat = pre' @ ''property.'' @ rest'
             \<longrightarrow> length ([]::string) \<le> length pre'" by simp
  have a: "string_values (Information property_habitat) ''authority'' = []"
    by (simp add: property_habitat_def)
  from WritePropertyElement_ref[OF h] obtain p authority where
    "element' = AddNestedElement (NewElement ''clade'') p"
    "authority = (if string_values (Information property_habitat) ''authority'' = []
                     \<or> last (string_values (Information property_habitat) ''authority'') = []
                  then ''VTK''
                  else last (string_values (Information property_habitat) ''authority''))"
    "\<forall>pre rest. Name property_habitat = pre @ ''property.'' @ rest
        \<and> (\<forall>pre' rest'. Name property_habitat = pre' @ ''property.'' @ rest'
              \<longrightarrow> length pre \<le> length pre')
        \<longrightarrow> GetAttribute p ''ref'' = Some (Str (authority @ '':'' @ rest))"
    by blast
  with n m a have "element' = AddNestedElement (NewElement ''clade'') p"
    "GetAttribute p ''ref'' = Some (Str (''VTK'' @ '':'' @ ''habitat''))"
    by (simp, metis)
  with h n show ?thesis by auto
qed

theorem ref_of_tree_level_property_counterexample:
  "map_sum id snd (WritePropertyElement phylogeny_property_foo (-1) (New good_stream)
      (NewElement ''phylogeny''))
   = Inr (Element ''phylogeny'' [] (Str [])
            [Element ''property''
               [(''datatype'', Str ''xsd:string''), (''ref'', Str ''VTK:foo''),
                (''applies_to'', Str ''clade'')] (Str ''bar'') []])"
  by (simp add: write_defs phylogeny_property_foo_def mk_variant_def)

lemma example_tree_shape:
  "tree_at example_tree example_rtree" "rroot example_rtree = GetRoot example_tree"
  "depth example_rtree \<le> 2"
  "GetRoot example_tree \<noteq> -1" "\<forall>v. -1 \<notin> set (GetChildren example_tree v)"
  by (simp_all add: example_tree_def example_rtree_def)

lemma example_rows_ok:
  "\<forall>u \<in> set (vertices example_rtree).
     rows_ok example_tree (with_arrays example_tree (New good_stream)) u"
  by (simp add: example_rtree_def rows_ok_def with_arrays_def example_tree_def New_def
        GetAbstractArray_def vtkArrayDownCast_UnsignedChar_def strings3_def vertex_weight_def
        color_rgb_def edge_weight_def)

lemma example_string_keys: "string_keys_only example_tree"
  by (simp add: string_keys_only_def example_tree_def strings3_def vertex_weight_def
        color_rgb_def)

lemma example_started: "fst (StartFile (with_arrays example_tree (New good_stream))) \<noteq> 0"
  by (simp add: StartFile_def with_arrays_def New_def good_stream_def os_put_def os_flush_def
        os_endl_def Let_def)

theorem clade_elements_mirror_tree_witness:
  "tree_at example_tree example_rtree \<and> rroot example_rtree = GetRoot example_tree
   \<and> depth example_rtree \<le> 2
   \<and> list_all (rows_ok example_tree (with_arrays example_tree (New good_stream)))
         (vertices example_rtree)
   \<and> string_keys_only example_tree
   \<and> fst (StartFile (with_arrays example_tree (New good_stream))) \<noteq> 0
   \<and> (\<exists>w2 doc.
         WriteData_rootElement 2 example_tree
           (snd (StartFile (with_arrays example_tree (New good_stream)))) = Inr (w2, doc)
       \<and> WriteData 2 print_names example_tree (New good_stream)
           = Inr (1, snd (EndFile (w2\<lparr>Stream := os_put (Stream w2) (print_names doc)\<rparr>)))
       \<and> count_clades doc = 3
       \<and> clade_shape doc = Shape [Shape [Shape [], Shape []]]
       \<and> clades_last doc
       \<and> (\<exists>own c. NestedElements doc = own @ [c] \<and> list_all (\<lambda>x. count_clades x = 0) own
              \<and> clade_for example_tree example_rtree c))"
proof -
  have n: "nodes example_rtree = 3" "shape_of example_rtree = Shape [Shape [], Shape []]"
    by (simp_all add: example_rtree_def)
  from clade_elements_mirror_tree[OF example_tree_shape(1,2,3) example_rows_ok
      example_string_keys example_started, of print_names]
  show ?thesis
    using example_tree_shape(1,2,3) example_rows_ok example_string_keys example_started
    unfolding n list_all_iff by blast
qed

theorem second_write_same_output_witness:
  "GetRoot example_tree \<noteq> -1 \<and> (\<forall>v. -1 \<notin> set (GetChildren example_tree v))
   \<and> (\<exists>w1 w2. WriteData 2 print_names example_tree (New good_stream) = Inr (1, w1)
        \<and> WriteData_twice 2 print_names example_tree (New good_stream) = Inr (1, w2)
        \<and> Stream w2 = Stream w1)"
proof -
  from example_write obtain w1 where
    h: "WriteData 2 print_names example_tree (New good_stream) = Inr (1, w1)" by blast
  from second_write_same_output[OF h example_tree_shape(4,5)] h example_tree_shape(4,5)
  show ?thesis by blast
qed

end
